theory Spec2Isabelle
  imports Main "HOL-Library.Word" "HOL-Library.Monad_Syntax"
begin

section \<open>The external file unit of the Fortran I/O runtime (flang/runtime/unit.cpp)\<close>

text \<open>
  The unit is embedded as a record that is passed through every operation and returned
  updated.  Sizes, offsets and record numbers (\<open>std::size_t\<close>, \<open>std::int64_t\<close>) are
  integers, and the places where the width of a type changes a value have the conversion
  written out: the 32-bit record length words, the \<open>int\<close> identifier converted to
  \<open>std::size_t\<close> in \<open>Wait\<close>, the sizes computed from the bytes of the file, the
  \<open>std::size_t\<close> stored in \<open>recordLength\<close>, and the increments and decrements of
  \<open>currentRecordNumber\<close>.
  A failed \<open>RUNTIME_CHECK\<close> and an access outside a buffer end the program: such a call
  has the result \<open>None\<close>.
\<close>

unbundle bit_operations_syntax

type_synonym byte = "8 word"

subsection \<open>SwapEndianness\<close>

text \<open>\<open>std::swap(data[i], data[j])\<close>\<close>

definition std_swap :: "byte list \<Rightarrow> nat \<Rightarrow> nat \<Rightarrow> byte list" where
  "std_swap data i j = data[i := data ! j, j := data ! i]"

text \<open>The inner loop \<open>for (k = 0; k < half; ++k)\<close>, entered at \<open>k\<close>.\<close>

function SwapEndianness_element ::
  "byte list \<Rightarrow> nat \<Rightarrow> nat \<Rightarrow> nat \<Rightarrow> nat \<Rightarrow> byte list" where
  "SwapEndianness_element data j elementBytes half k =
     (if k < half
      then SwapEndianness_element (std_swap data (j + k) (j + elementBytes - 1 - k))
             j elementBytes half (k + 1)
      else data)"
  by pat_completeness auto
termination
  by (relation "measure (\<lambda>(data, j, elementBytes, half, k). half - k)") auto

text \<open>
  The outer loop \<open>for (j = 0; j + elementBytes <= bytes; j += elementBytes)\<close>, entered at
  \<open>j\<close>.  The source enters it only under \<open>elementBytes > 1\<close>; the conjunct
  \<open>0 < elementBytes\<close> repeats that much of the guard so that the recursion is total.
\<close>

function SwapEndianness_elements ::
  "byte list \<Rightarrow> nat \<Rightarrow> nat \<Rightarrow> nat \<Rightarrow> nat \<Rightarrow> byte list" where
  "SwapEndianness_elements data bytes elementBytes half j =
     (if 0 < elementBytes \<and> j + elementBytes \<le> bytes
      then SwapEndianness_elements (SwapEndianness_element data j elementBytes half 0)
             bytes elementBytes half (j + elementBytes)
      else data)"
  by pat_completeness auto
termination
  by (relation "measure (\<lambda>(data, bytes, elementBytes, half, j). bytes + 1 - j)") auto

definition SwapEndianness :: "byte list \<Rightarrow> nat \<Rightarrow> nat \<Rightarrow> byte list" where
  "SwapEndianness data bytes elementBytes =
     (if elementBytes > 1
      then SwapEndianness_elements data bytes elementBytes (elementBytes div 2) 0
      else data)"


subsection \<open>Error handler\<close>

datatype Iostat =
    IostatOk | IostatEnd | IostatGenericError
  | IostatRecordReadOverrun | IostatRecordWriteOverrun | IostatWriteAfterEndfile
  | IostatBackspaceNonSequential | IostatBackspaceAtFirstRecord
  | IostatBadUnformattedRecord | IostatShortRead | IostatMissingTerminator
  | IostatBadAsynchronous | IostatTooManyAsyncOps

datatype IoSignal = SignalledError Iostat string | SignalledEnd

text \<open>
  Modelled from the spec: the class \<open>IoErrorHandler\<close> (io-error.h) is not among the
  sources.  The spec (sections 6 and 7) describes it as an injected handler with the verbs
  \<open>SignalError(code, format, ...)\<close> for recoverable I/O errors mapped to \<open>IOSTAT\<close>,
  \<open>SignalEnd()\<close> for end-of-file, \<open>GetIoStat\<close> and \<open>InError\<close>.  The handler is
  the list of the conditions signalled so far, oldest first.  Its \<open>IOSTAT\<close> value is the
  first error signalled, else \<open>IostatEnd\<close> when end-of-file was signalled, else
  \<open>IostatOk\<close>.  An error signalled with a message only carries \<open>IostatGenericError\<close>
  and the text of the message; the message of an error signalled with a code is left out.
  Every handler is one that recovers (\<open>IOSTAT=\<close> or \<open>ERR=\<close> is present).
\<close>

record IoErrorHandler =
  signals :: "IoSignal list"

definition SignalError :: "Iostat \<Rightarrow> IoErrorHandler \<Rightarrow> IoErrorHandler" where
  "SignalError code handler =
     (if code = IostatOk then handler
      else if code = IostatEnd then handler\<lparr>signals := signals handler @ [SignalledEnd]\<rparr>
      else handler\<lparr>signals := signals handler @ [SignalledError code []]\<rparr>)"

definition SignalErrorMessage :: "string \<Rightarrow> IoErrorHandler \<Rightarrow> IoErrorHandler" where
  "SignalErrorMessage msg handler =
     handler\<lparr>signals := signals handler @ [SignalledError IostatGenericError msg]\<rparr>"

definition SignalEnd :: "IoErrorHandler \<Rightarrow> IoErrorHandler" where
  "SignalEnd handler = SignalError IostatEnd handler"

fun first_error :: "IoSignal list \<Rightarrow> Iostat option" where
  "first_error [] = None"
| "first_error (SignalledError code msg # rest) = Some code"
| "first_error (SignalledEnd # rest) = first_error rest"

definition GetIoStat :: "IoErrorHandler \<Rightarrow> Iostat" where
  "GetIoStat handler =
     (case first_error (signals handler) of
        Some code \<Rightarrow> code
      | None \<Rightarrow> if SignalledEnd \<in> set (signals handler) then IostatEnd else IostatOk)"

definition InError :: "IoErrorHandler \<Rightarrow> bool" where
  "InError handler = (GetIoStat handler \<noteq> IostatOk)"

subsection \<open>The unit\<close>

datatype Access = Sequential | Direct | Stream

text \<open>
  Modelled from the spec: the declaration of \<open>Direction\<close> is not among the sources; the
  spec's data model (section 3) lists the three values.
\<close>

datatype Direction = Output | Input | Undetermined

text \<open>
  The fields of \<open>ExternalFileUnit\<close> that the operations below read or write, with those it
  inherits from \<open>ConnectionState\<close>, \<open>OpenFile\<close> and \<open>FileFrame\<close> (spec, section 3).

  Modelled from the spec: the frame layer (\<open>FileFrame\<close>, buffer.h) and the file beneath it
  are not among the sources.  The spec (section 6 and glossary) describes the frame as a
  sliding buffered window over the file.  Here \<open>fileData\<close> holds the bytes of the file as
  the buffer layer presents them (written bytes included, flushed or not), and the frame is the
  window of \<open>frameLength\<close> bytes that starts at file offset \<open>frameAt\<close>.  \<open>readAhead\<close>
  is the number of bytes past a request that \<open>ReadFrame\<close> makes available when the file has
  them.  \<open>isHostLittleEndian\<close> and \<open>isWin32\<close> stand for the build's constant and the
  \<open>_WIN32\<close> macro.
\<close>

record ExternalFileUnit =
  access :: Access
  isUnformatted :: "bool option"
  openRecl :: "int option"
  recordLength :: "int option"
  endfileRecordNumber :: "int option"
  currentRecordNumber :: int
  positionInRecord :: int
  furthestPositionInRecord :: int
  leftTabLimit :: "int option"
  unterminatedRecord :: bool
  pinnedFrame :: bool
  direction :: Direction
  impliedEndfile :: bool
  beganReadingRecord :: bool
  directAccessRecWasSet :: bool
  swapEndianness :: bool
  frameOffsetInFile :: int
  recordOffsetInFrame :: int
  asyncIdAvailable :: "bool list"
  mayPosition :: bool
  mayAsynchronous :: bool
  isWindowsTextFile :: bool
  isWin32 :: bool
  isHostLittleEndian :: bool
  fileData :: "byte list"
  frameAt :: int
  frameLength :: int
  readAhead :: nat


text \<open>\<open>std::optional::value_or\<close>\<close>

definition value_or :: "'a option \<Rightarrow> 'a \<Rightarrow> 'a" where
  "value_or opt dflt = (case opt of Some v \<Rightarrow> v | None \<Rightarrow> dflt)"

text \<open>
  The conversion of a signed 64-bit value to \<open>std::size_t\<close>.  It is written out where the
  source converts a value that the bytes of the file decide.
\<close>

definition size_t_of_int :: "int \<Rightarrow> int" where
  "size_t_of_int x = x mod 2 ^ 64"

text \<open>
  The value that a \<open>std::int64_t\<close> holds after a result \<open>x\<close> is stored in it, with the
  wrap-around of two's complement written out.  It is applied where the source increments or
  decrements \<open>currentRecordNumber\<close>, which \<open>OpenUnit\<close> places at \<open>INT64_MAX - 2\<close> for
  \<open>POSITION='APPEND'\<close>, and where it stores a \<open>std::size_t\<close> in \<open>recordLength\<close>.
\<close>

definition int64_of_int :: "int \<Rightarrow> int" where
  "int64_of_int x = (x + 2 ^ 63) mod 2 ^ 64 - 2 ^ 63"

subsection \<open>Connection state\<close>

text \<open>
  Modelled from the spec: the members of \<open>ConnectionState\<close> (connection.h) are not among
  the sources.  The spec names them (section 6) and says of the data they read (section 3) that
  \<open>endfileRecordNumber\<close> is the record number at which the endfile marker lies and that
  \<open>currentRecordNumber\<close> counts from 1; a record file is every file but an unformatted
  stream (section 4.5, \<open>FinishReadingRecord\<close> and \<open>BackspaceRecord\<close>); \<open>BeginRecord\<close>
  puts the cursor and the high-water mark back to the start of a record.
\<close>

definition IsRecordFile :: "ExternalFileUnit \<Rightarrow> bool" where
  "IsRecordFile u = (access u \<noteq> Stream \<or> \<not> value_or (isUnformatted u) True)"

definition IsAtEOF :: "ExternalFileUnit \<Rightarrow> bool" where
  "IsAtEOF u =
     (case endfileRecordNumber u of Some n \<Rightarrow> currentRecordNumber u \<ge> n | None \<Rightarrow> False)"

definition IsAfterEndfile :: "ExternalFileUnit \<Rightarrow> bool" where
  "IsAfterEndfile u =
     (case endfileRecordNumber u of Some n \<Rightarrow> currentRecordNumber u > n | None \<Rightarrow> False)"

definition BeginRecord :: "ExternalFileUnit \<Rightarrow> ExternalFileUnit" where
  "BeginRecord u =
     u\<lparr>positionInRecord := 0, furthestPositionInRecord := 0, unterminatedRecord := False\<rparr>"

subsection \<open>Frame\<close>

text \<open>
  Modelled from the spec: the operations of the frame layer (section 6).
  \<open>ReadFrame(offset, requiredBytes)\<close> makes the window start at \<open>offset\<close> and hold the
  requested bytes if the file has them, and returns the number of bytes available;
  \<open>WriteFrame(offset, requiredBytes)\<close> makes a writable window of that size, the file growing
  with zero bytes where it was shorter; \<open>Truncate\<close> cuts the file and \<open>TruncateFrame\<close> the
  window at an offset; \<open>Flush\<close> changes nothing that the unit can see.  None of them signals
  an error of the operating system.  \<open>Frame u i\<close> is the byte \<open>Frame()[i]\<close>; a read or a
  write outside the window has no result.
\<close>

text \<open>A file grown with zero bytes to at least \<open>n\<close> bytes, and a file with the bytes
  \<open>bs\<close> stored at offset \<open>at\<close>.\<close>

definition extend :: "byte list \<Rightarrow> nat \<Rightarrow> byte list" where
  "extend file n = file @ replicate (n - length file) 0"

definition overwrite :: "byte list \<Rightarrow> nat \<Rightarrow> byte list \<Rightarrow> byte list" where
  "overwrite file at bs = take at file @ bs @ drop (at + length bs) file"

definition FrameContents :: "ExternalFileUnit \<Rightarrow> byte list" where
  "FrameContents u = take (nat (frameLength u)) (drop (nat (frameAt u)) (fileData u))"

definition Frame :: "ExternalFileUnit \<Rightarrow> int \<Rightarrow> byte option" where
  "Frame u i =
     (if 0 \<le> i \<and> nat i < length (FrameContents u) then Some (FrameContents u ! nat i)
      else None)"

definition FrameBytes :: "ExternalFileUnit \<Rightarrow> int \<Rightarrow> nat \<Rightarrow> byte list option" where
  "FrameBytes u i n =
     (if 0 \<le> i \<and> nat i + n \<le> length (FrameContents u)
      then Some (take n (drop (nat i) (FrameContents u)))
      else None)"

definition FrameStore :: "ExternalFileUnit \<Rightarrow> int \<Rightarrow> byte list \<Rightarrow> ExternalFileUnit option" where
  "FrameStore u i bs =
     (if 0 \<le> i \<and> nat i + length bs \<le> length (FrameContents u)
      then Some (u\<lparr>fileData := overwrite (fileData u) (nat (frameAt u) + nat i) bs\<rparr>)
      else None)"

definition ReadFrame :: "int \<Rightarrow> int \<Rightarrow> ExternalFileUnit \<Rightarrow> int \<times> ExternalFileUnit" where
  "ReadFrame at bytes u =
     (let available = (if 0 \<le> at then int (length (fileData u)) - at else 0);
          got = max 0 (min (bytes + int (readAhead u)) available)
      in (got, u\<lparr>frameAt := at, frameLength := got\<rparr>))"

definition WriteFrame :: "int \<Rightarrow> int \<Rightarrow> ExternalFileUnit \<Rightarrow> ExternalFileUnit" where
  "WriteFrame at bytes u =
     u\<lparr>frameAt := at, frameLength := bytes,
       fileData := extend (fileData u) (nat (at + bytes))\<rparr>"




text \<open>
  Modelled from the spec: \<open>FindCharacter\<close> (tools.h) is not among the sources; it is the
  forward search of section 4.5 (\<open>SetVariableFormattedRecordLength\<close>), giving the offset of
  the first occurrence.
\<close>

fun FindCharacter :: "byte list \<Rightarrow> byte \<Rightarrow> nat option" where
  "FindCharacter [] ch = None"
| "FindCharacter (c # cs) ch = (if c = ch then Some 0 else map_option Suc (FindCharacter cs ch))"

subsection \<open>Asynchronous identifiers\<close>

text \<open>
  Modelled from the spec: the bit set class of \<open>asyncIdAvailable_\<close> is not among the
  sources.  The spec (section 4.2) describes a bit set of a fixed width W, bit \<open>i\<close> set iff
  identifier \<open>i\<close> is free.  It is a list of W booleans; \<open>LeastElement\<close> is the index of the
  least set bit.
\<close>

fun LeastElement :: "bool list \<Rightarrow> nat option" where
  "LeastElement [] = None"
| "LeastElement (b # bs) = (if b then Some 0 else map_option Suc (LeastElement bs))"

definition bitset_test :: "bool list \<Rightarrow> int \<Rightarrow> bool" where
  "bitset_test bits x = (0 \<le> x \<and> nat x < length bits \<and> bits ! nat x)"

definition bitset_set_all :: "bool list \<Rightarrow> bool list" where
  "bitset_set_all bits = replicate (length bits) True"

definition bitset_set :: "bool list \<Rightarrow> int \<Rightarrow> bool list" where
  "bitset_set bits x = bits[nat x := True]"

definition bitset_reset :: "bool list \<Rightarrow> int \<Rightarrow> bool list" where
  "bitset_reset bits x = bits[nat x := False]"

definition GetAsynchronousId ::
  "ExternalFileUnit \<Rightarrow> IoErrorHandler \<Rightarrow> int \<times> ExternalFileUnit \<times> IoErrorHandler" where
  "GetAsynchronousId u handler =
     (if \<not> mayAsynchronous u then (- 1, u, SignalError IostatBadAsynchronous handler)
      else case LeastElement (asyncIdAvailable u) of
        Some least \<Rightarrow>
          (int least,
           u\<lparr>asyncIdAvailable := bitset_reset (asyncIdAvailable u) (int least)\<rparr>, handler)
      | None \<Rightarrow> (- 1, u, SignalError IostatTooManyAsyncOps handler))"

text \<open>
  The argument \<open>id\<close> of the source is an \<open>int\<close>, here \<open>ident\<close>;
  \<open>static_cast<std::size_t>(id)\<close> and the implicit conversion of the argument of
  \<open>test\<close> and \<open>set\<close> are \<open>size_t_of_int\<close>.
\<close>

definition Wait :: "ExternalFileUnit \<Rightarrow> int \<Rightarrow> bool \<times> ExternalFileUnit" where
  "Wait u ident =
     (if size_t_of_int ident \<ge> int (length (asyncIdAvailable u)) \<or>
         bitset_test (asyncIdAvailable u) (size_t_of_int ident)
      then (False, u)
      else if ident = 0
      then (True, u\<lparr>asyncIdAvailable := bitset_reset (bitset_set_all (asyncIdAvailable u)) 0\<rparr>)
      else (True, u\<lparr>asyncIdAvailable := bitset_set (asyncIdAvailable u) (size_t_of_int ident)\<rparr>))"

subsection \<open>Record engine\<close>

definition CommitWrites :: "ExternalFileUnit \<Rightarrow> ExternalFileUnit" where
  "CommitWrites u =
     BeginRecord
       (u\<lparr>frameOffsetInFile := frameOffsetInFile u +
             (recordOffsetInFrame u + value_or (recordLength u) (furthestPositionInRecord u)),
          recordOffsetInFrame := 0\<rparr>)"

text \<open>The message of \<open>CheckDirectAccess\<close>; it ends with an apostrophe.\<close>

definition NoRecMessage :: string where
  "NoRecMessage =
     ''No REC= was specified for a data transfer with ACCESS='DIRECT'' @ [CHR 0x27]"

definition CheckDirectAccess ::
  "ExternalFileUnit \<Rightarrow> IoErrorHandler \<Rightarrow> (bool \<times> IoErrorHandler) option" where
  "CheckDirectAccess u handler =
     (if access u = Direct
      then (if openRecl u = None then None
            else if \<not> directAccessRecWasSet u
            then Some (False, SignalErrorMessage NoRecMessage handler)
            else Some (True, handler))
      else Some (True, handler))"

definition HitEndOnRead ::
  "ExternalFileUnit \<Rightarrow> IoErrorHandler \<Rightarrow> ExternalFileUnit \<times> IoErrorHandler" where
  "HitEndOnRead u handler =
     ((if IsRecordFile u \<and> access u \<noteq> Direct
       then u\<lparr>endfileRecordNumber := Some (currentRecordNumber u)\<rparr> else u),
      SignalEnd handler)"

text \<open>
  The object representation of a 32-bit word, as \<open>std::memcpy\<close> and
  \<open>reinterpret_cast<const char *>\<close> see it: least significant byte first on a little-endian
  host, last otherwise.
\<close>

definition word_bytes :: "bool \<Rightarrow> 32 word \<Rightarrow> byte list" where
  "word_bytes little w =
     (let bs = [ucast w, ucast (drop_bit 8 w), ucast (drop_bit 16 w), ucast (drop_bit 24 w)]
      in if little then bs else rev bs)"

definition bytes_word :: "bool \<Rightarrow> byte list \<Rightarrow> 32 word" where
  "bytes_word little bs =
     foldr (\<lambda>b w. ucast b OR push_bit 8 w) (if little then bs else rev bs) 0"

definition ReadHeaderOrFooter :: "ExternalFileUnit \<Rightarrow> int \<Rightarrow> 32 word option" where
  "ReadHeaderOrFooter u frameOffset =
     do {
       wordPtr \<leftarrow> FrameBytes u frameOffset 4;
       Some (bytes_word (isHostLittleEndian u)
               (if swapEndianness u then SwapEndianness wordPtr 4 4 else wordPtr))
     }"

definition Emit ::
  "byte list \<Rightarrow> nat \<Rightarrow> nat \<Rightarrow> ExternalFileUnit \<Rightarrow> IoErrorHandler
     \<Rightarrow> (bool \<times> ExternalFileUnit \<times> IoErrorHandler) option" where
  "Emit data bytes elementBytes u handler =
     (let furthestAfter = max (furthestPositionInRecord u) (positionInRecord u + int bytes);
          extra = (if access u = Sequential
                   then (if value_or (isUnformatted u) False then 2 * 4
                         else (if isWin32 u \<and> \<not> isWindowsTextFile u then 1 else 0) + 1)
                   else 0)
      in if (case openRecl u of Some recl \<Rightarrow> furthestAfter > extra + recl | None \<Rightarrow> False)
         then Some (False, u, SignalError IostatRecordWriteOverrun handler)
         else
           let u = (if recordLength u \<noteq> None
                    then u\<lparr>recordLength := None, beganReadingRecord := False\<rparr> else u)
           in if IsAfterEndfile u
              then Some (False, u, SignalError IostatWriteAfterEndfile handler)
              else do {
                (checked, handler) \<leftarrow> CheckDirectAccess u handler;
                let u = WriteFrame (frameOffsetInFile u) (recordOffsetInFrame u + furthestAfter) u;
                u \<leftarrow> (if positionInRecord u > furthestPositionInRecord u
                      then FrameStore u (recordOffsetInFrame u + furthestPositionInRecord u)
                             (replicate (nat (positionInRecord u - furthestPositionInRecord u)) 32)
                      else Some u);
                let to = recordOffsetInFrame u + positionInRecord u;
                source \<leftarrow> (if bytes \<le> length data then Some (take bytes data) else None);
                u \<leftarrow> FrameStore u to source;
                u \<leftarrow> (if swapEndianness u
                      then do {
                        written \<leftarrow> FrameBytes u to bytes;
                        FrameStore u to (SwapEndianness written bytes elementBytes)
                      }
                      else Some u);
                Some (True,
                      u\<lparr>positionInRecord := positionInRecord u + int bytes,
                        furthestPositionInRecord := furthestAfter\<rparr>,
                      handler)
              })"

text \<open>
  \<open>Receive\<close> takes the caller's buffer \<open>data\<close> and returns it with its first \<open>bytes\<close>
  bytes overwritten.
\<close>

definition Receive ::
  "byte list \<Rightarrow> nat \<Rightarrow> nat \<Rightarrow> ExternalFileUnit \<Rightarrow> IoErrorHandler
     \<Rightarrow> (bool \<times> byte list \<times> ExternalFileUnit \<times> IoErrorHandler) option" where
  "Receive data bytes elementBytes u handler =
     (if direction u \<noteq> Input then None
      else
        let furthestAfter = max (furthestPositionInRecord u) (positionInRecord u + int bytes)
        in if furthestAfter > value_or (recordLength u) furthestAfter
           then Some (False, data, u, SignalError IostatRecordReadOverrun handler)
           else
             let need = recordOffsetInFrame u + furthestAfter;
                 (got, u) = ReadFrame (frameOffsetInFile u) need u
             in if got \<ge> need
                then do {
                  source \<leftarrow> FrameBytes u (recordOffsetInFrame u + positionInRecord u) bytes;
                  data \<leftarrow> (if bytes \<le> length data then Some (source @ drop bytes data)
                            else None);
                  Some (True,
                        (if swapEndianness u then SwapEndianness data bytes elementBytes
                         else data),
                        u\<lparr>positionInRecord := positionInRecord u + int bytes,
                          furthestPositionInRecord := furthestAfter\<rparr>,
                        handler)
                }
                else let (u, handler) = HitEndOnRead u handler
                     in Some (False, data, u, handler))"

text \<open>
  The first component of the result lists the frame offsets whose bytes the call reads, in the
  order in which it reads them: the forward search for the newline, then the byte before the
  newline when the source's test \<open>*recordLength > 0\<close> lets the second operand of \<open>&&\<close>
  be evaluated.
\<close>

definition SetVariableFormattedRecordLength ::
  "ExternalFileUnit \<Rightarrow> int list \<times> ExternalFileUnit \<times> bool" where
  "SetVariableFormattedRecordLength u =
     (if recordLength u \<noteq> None \<or> access u = Direct then ([], u, True)
      else if frameLength u > recordOffsetInFrame u
      then
        (let record = drop (nat (recordOffsetInFrame u)) (FrameContents u);
             bytes = nat (frameLength u - recordOffsetInFrame u);
             searched = take bytes record
         in case FindCharacter searched 10 of
              Some nl \<Rightarrow>
                (let inspected = map (\<lambda>k. recordOffsetInFrame u + int k) [0 ..< Suc nl]
                 in if int nl > 0
                    then (inspected @ [recordOffsetInFrame u + int nl - 1],
                          u\<lparr>recordLength :=
                              Some (if record ! (nl - 1) = 13 then int nl - 1 else int nl)\<rparr>,
                          True)
                    else (inspected, u\<lparr>recordLength := Some (int nl)\<rparr>, True))
            | None \<Rightarrow>
                (map (\<lambda>k. recordOffsetInFrame u + int k) [0 ..< length searched], u, False))
      else ([], u, False))"

definition BeginSequentialVariableUnformattedInputRecord ::
  "ExternalFileUnit \<Rightarrow> IoErrorHandler \<Rightarrow> (ExternalFileUnit \<times> IoErrorHandler) option" where
  "BeginSequentialVariableUnformattedInputRecord u handler =
     (let need = recordOffsetInFrame u + 4;
          (got, u) = ReadFrame (frameOffsetInFile u) need u
      in if got < need
         then (if got = recordOffsetInFrame u
               then (let (u, handler) = HitEndOnRead u handler
                     in Some (u\<lparr>positionInRecord := 4\<rparr>, handler))
               else Some (u\<lparr>positionInRecord := 4\<rparr>,
                          SignalErrorMessage
                            (''Unformatted variable-length sequential file input failed at '' @
                             ''record #%jd (file offset %jd): truncated record header'')
                            handler))
         else do {
           header \<leftarrow> ReadHeaderOrFooter u (recordOffsetInFrame u);
           let u = u\<lparr>recordLength := Some (4 + sint header)\<rparr>;
           let need = size_t_of_int (recordOffsetInFrame u + (4 + sint header) + 4);
           let (got, u) = ReadFrame (frameOffsetInFile u) need u;
           if got < need
           then Some (u\<lparr>positionInRecord := 4\<rparr>,
                      SignalErrorMessage
                        (''Unformatted variable-length sequential file input failed at '' @
                         ''record #%jd (file offset %jd): hit EOF reading record with '' @
                         ''length %jd bytes'')
                        handler)
           else do {
             footer \<leftarrow> ReadHeaderOrFooter u (recordOffsetInFrame u + (4 + sint header));
             if footer \<noteq> header
             then Some (u\<lparr>positionInRecord := 4\<rparr>,
                        SignalErrorMessage
                          (''Unformatted variable-length sequential file input failed at '' @
                           ''record #%jd (file offset %jd): record header has length %jd '' @
                           ''that does not match record footer (%jd)'')
                          handler)
             else Some (u\<lparr>positionInRecord := 4\<rparr>, handler)
           }
         })"

text \<open>
  The loop of \<open>BeginVariableFormattedInputRecord\<close>, entered with the \<open>length\<close> read so
  far; \<open>length\<close> and \<open>need\<close> are \<open>std::size_t\<close>.  A loop that does not end has the
  value \<open>None\<close>.  The flushes of the default output units that precede the loop when the
  unit is the default input act on those other units and are left out.
\<close>

partial_function (option) BeginVariableFormattedInputRecord_loop ::
  "int \<Rightarrow> ExternalFileUnit \<Rightarrow> IoErrorHandler \<Rightarrow> (ExternalFileUnit \<times> IoErrorHandler) option" where
  "BeginVariableFormattedInputRecord_loop length0 u handler =
     (let need = size_t_of_int (length0 + 1);
          u1 = snd (ReadFrame (frameOffsetInFile u) (recordOffsetInFrame u + need) u);
          length1 = size_t_of_int
             (fst (ReadFrame (frameOffsetInFile u) (recordOffsetInFrame u + need) u) -
              recordOffsetInFrame u)
      in if length1 < need
         then (if length1 > 0
               then Some (u1\<lparr>recordLength := Some (int64_of_int length1),
                             unterminatedRecord := True\<rparr>, handler)
               else Some (HitEndOnRead u1 handler))
         else if snd (snd (SetVariableFormattedRecordLength u1))
         then Some (fst (snd (SetVariableFormattedRecordLength u1)), handler)
         else BeginVariableFormattedInputRecord_loop length1
                (fst (snd (SetVariableFormattedRecordLength u1))) handler)"

definition BeginVariableFormattedInputRecord ::
  "ExternalFileUnit \<Rightarrow> IoErrorHandler \<Rightarrow> (ExternalFileUnit \<times> IoErrorHandler) option" where
  "BeginVariableFormattedInputRecord u handler =
     BeginVariableFormattedInputRecord_loop 0 u handler"

definition BeginReadingRecord ::
  "ExternalFileUnit \<Rightarrow> IoErrorHandler \<Rightarrow> (bool \<times> ExternalFileUnit \<times> IoErrorHandler) option" where
  "BeginReadingRecord u handler =
     (if direction u \<noteq> Input then None
      else do {
        (u, handler) \<leftarrow>
          (if \<not> beganReadingRecord u
           then
             (let u = u\<lparr>beganReadingRecord := True\<rparr>
              in if access u = Direct
                 then do {
                   (checked, handler) \<leftarrow> CheckDirectAccess u handler;
                   recl \<leftarrow> openRecl u;
                   let need = size_t_of_int (recordOffsetInFrame u + recl);
                   let (got, u) = ReadFrame (frameOffsetInFile u) need u;
                   if got \<ge> need
                   then Some (u\<lparr>recordLength := openRecl u\<rparr>, handler)
                   else Some (HitEndOnRead (u\<lparr>recordLength := None\<rparr>) handler)
                 }
                 else
                   (let u = u\<lparr>recordLength := None\<rparr>
                    in if IsAtEOF u then Some (u, SignalEnd handler)
                       else case isUnformatted u of
                              None \<Rightarrow> None
                            | Some True \<Rightarrow>
                                if access u = Sequential
                                then BeginSequentialVariableUnformattedInputRecord u handler
                                else Some (u, handler)
                            | Some False \<Rightarrow> BeginVariableFormattedInputRecord u handler))
           else Some (u, handler));
        if recordLength u \<noteq> None \<or> \<not> IsRecordFile u \<or> InError handler
        then Some (\<not> InError handler, u, handler)
        else None
      })"

definition FinishReadingRecord ::
  "ExternalFileUnit \<Rightarrow> IoErrorHandler \<Rightarrow> ExternalFileUnit option" where
  "FinishReadingRecord u handler =
     (if \<not> (direction u = Input \<and> beganReadingRecord u) then None
      else
        let u = u\<lparr>beganReadingRecord := False\<rparr>
        in if GetIoStat handler = IostatEnd \<or> (IsRecordFile u \<and> recordLength u = None)
           then Some (BeginRecord
                  (u\<lparr>currentRecordNumber := int64_of_int (currentRecordNumber u + 1)\<rparr>))
           else if IsRecordFile u
           then do {
             len \<leftarrow> recordLength u;
             let u = u\<lparr>recordOffsetInFrame := recordOffsetInFrame u + len\<rparr>;
             u \<leftarrow>
               (if access u \<noteq> Direct
                then (if isUnformatted u = None then None
                      else
                        let u = u\<lparr>recordLength := None\<rparr>
                        in if value_or (isUnformatted u) False
                           then Some (u\<lparr>frameOffsetInFile :=
                                           frameOffsetInFile u + recordOffsetInFrame u,
                                        recordOffsetInFrame := 4\<rparr>)
                           else do {
                             u \<leftarrow> (if frameLength u > recordOffsetInFrame u
                                   then do {
                                     c \<leftarrow> Frame u (recordOffsetInFrame u);
                                     Some (if c = 13
                                           then u\<lparr>recordOffsetInFrame := recordOffsetInFrame u + 1\<rparr>
                                           else u)
                                   }
                                   else Some u);
                             u \<leftarrow> (if frameLength u > recordOffsetInFrame u
                                   then do {
                                     c \<leftarrow> Frame u (recordOffsetInFrame u);
                                     Some (if c = 10
                                           then u\<lparr>recordOffsetInFrame := recordOffsetInFrame u + 1\<rparr>
                                           else u)
                                   }
                                   else Some u);
                             Some (if \<not> pinnedFrame u \<or> mayPosition u
                                   then u\<lparr>frameOffsetInFile :=
                                            frameOffsetInFile u + recordOffsetInFrame u,
                                          recordOffsetInFrame := 0\<rparr>
                                   else u)
                           })
                else Some u);
             Some (BeginRecord
                  (u\<lparr>currentRecordNumber := int64_of_int (currentRecordNumber u + 1)\<rparr>))
           }
           else
             (let u = u\<lparr>furthestPositionInRecord :=
                          max (furthestPositionInRecord u) (positionInRecord u)\<rparr>
              in Some (BeginRecord
                   (u\<lparr>frameOffsetInFile := frameOffsetInFile u +
                         (recordOffsetInFrame u + furthestPositionInRecord u)\<rparr>))))"

text \<open>
  The end of the output branch of \<open>AdvanceRecord\<close>, from \<open>leftTabLimit.reset()\<close> to
  \<open>return ok\<close>, which every path but the early \<open>return true\<close> reaches.
\<close>

definition AdvanceRecord_commit ::
  "bool \<Rightarrow> ExternalFileUnit \<Rightarrow> IoErrorHandler
     \<Rightarrow> (bool \<times> ExternalFileUnit \<times> IoErrorHandler) option" where
  "AdvanceRecord_commit ok u handler =
     (let u = u\<lparr>leftTabLimit := None\<rparr>
      in if IsAfterEndfile u then Some (False, u, handler)
         else
           let u = CommitWrites u;
               u = u\<lparr>currentRecordNumber := int64_of_int (currentRecordNumber u + 1)\<rparr>;
               u = (if access u \<noteq> Direct
                    then (let u = u\<lparr>impliedEndfile := IsRecordFile u\<rparr>
                          in if IsAtEOF u then u\<lparr>endfileRecordNumber := None\<rparr> else u)
                    else u)
           in Some (ok, u, handler))"

definition AdvanceRecord ::
  "ExternalFileUnit \<Rightarrow> IoErrorHandler \<Rightarrow> (bool \<times> ExternalFileUnit \<times> IoErrorHandler) option" where
  "AdvanceRecord u handler =
     (if direction u = Input
      then do {
        u \<leftarrow> FinishReadingRecord u handler;
        BeginReadingRecord u handler
      }
      else
        (if isUnformatted u = None then None
         else
           let u = u\<lparr>positionInRecord := furthestPositionInRecord u\<rparr>
           in if access u = Direct
              then (if furthestPositionInRecord u
                         < value_or (openRecl u) (furthestPositionInRecord u)
                    then do {
                      recl \<leftarrow> openRecl u;
                      let u = WriteFrame (frameOffsetInFile u) (recordOffsetInFrame u + recl) u;
                      u \<leftarrow> FrameStore u (recordOffsetInFrame u + furthestPositionInRecord u)
                             (replicate (nat (recl - furthestPositionInRecord u))
                                (if value_or (isUnformatted u) False then 0 else 32));
                      AdvanceRecord_commit True (u\<lparr>furthestPositionInRecord := recl\<rparr>) handler
                    }
                    else AdvanceRecord_commit True u handler)
              else if isUnformatted u = Some True
              then (if access u = Sequential
                    then
                      (let length0 = (word_of_int (furthestPositionInRecord u - 4) :: 32 word);
                           bytes = word_bytes (isHostLittleEndian u) length0
                       in do {
                         (ok, u, handler) \<leftarrow> Emit bytes 4 4 u handler;
                         let u = u\<lparr>positionInRecord := 0\<rparr>;
                         (ok, u, handler) \<leftarrow>
                           (if ok then Emit bytes 4 4 u handler else Some (False, u, handler));
                         AdvanceRecord_commit ok u handler
                       })
                    else AdvanceRecord_commit True u handler)
              else if GetIoStat handler \<noteq> IostatOk \<and> furthestPositionInRecord u = 0
              then Some (True, u, handler)
              else do {
                (ok, u, handler) \<leftarrow>
                  (if isWin32 u \<and> \<not> isWindowsTextFile u
                   then Emit [13, 10] 2 1 u handler
                   else Emit [10] 1 1 u handler);
                AdvanceRecord_commit ok u handler
              }))"










subsection \<open>Drivers and example units\<close>

text \<open>\<open>n\<close> successive calls of \<open>GetAsynchronousId\<close> on one unit, with the identifiers they return.\<close>

fun successive_GetAsynchronousId ::
  "nat \<Rightarrow> ExternalFileUnit \<Rightarrow> IoErrorHandler \<Rightarrow> int list \<times> ExternalFileUnit \<times> IoErrorHandler" where
  "successive_GetAsynchronousId 0 u handler = ([], u, handler)"
| "successive_GetAsynchronousId (Suc n) u handler =
     (case GetAsynchronousId u handler of
        (ident, u1, handler1) \<Rightarrow>
          (case successive_GetAsynchronousId n u1 handler1 of
             (idents, u2, handler2) \<Rightarrow> (ident # idents, u2, handler2)))"

text \<open>
  A unit as its default member initialisers leave it, over an empty file, on a little-endian
  host that is not Windows; 64 asynchronous identifiers, all free but the reserved 0.
\<close>

definition initialUnit :: ExternalFileUnit where
  "initialUnit =
     \<lparr>access = Sequential, isUnformatted = None, openRecl = None, recordLength = None,
      endfileRecordNumber = None, currentRecordNumber = 1, positionInRecord = 0,
      furthestPositionInRecord = 0, leftTabLimit = None, unterminatedRecord = False,
      pinnedFrame = False, direction = Output, impliedEndfile = False,
      beganReadingRecord = False, directAccessRecWasSet = False, swapEndianness = False,
      frameOffsetInFile = 0, recordOffsetInFrame = 0,
      asyncIdAvailable = False # replicate 63 True,
      mayPosition = True, mayAsynchronous = False, isWindowsTextFile = False, isWin32 = False,
      isHostLittleEndian = True, fileData = [], frameAt = 0, frameLength = 0, readAhead = 0\<rparr>"

definition noErrors :: IoErrorHandler where
  "noErrors = \<lparr>signals = []\<rparr>"



text \<open>A formatted sequential unit whose frame holds \<open>A\<close>, two newlines and \<open>B\<close>, the
  current record starting at the second newline.\<close>

definition unitAtEmptyRecord :: ExternalFileUnit where
  "unitAtEmptyRecord =
     initialUnit\<lparr>direction := Input, isUnformatted := Some False,
                 fileData := [65, 10, 10, 66], frameLength := 4, recordOffsetInFrame := 2\<rparr>"

text \<open>A formatted direct-access unit with records of 8 bytes, the current one starting with
  a newline.\<close>

definition directUnitAtNewline :: ExternalFileUnit where
  "directUnitAtNewline =
     initialUnit\<lparr>direction := Input, isUnformatted := Some False, access := Direct,
                 openRecl := Some 8, recordLength := Some 8,
                 fileData := [10, 65, 66, 67, 68, 69, 70, 71], frameLength := 8\<rparr>"

text \<open>The initial unit on a file opened for asynchronous transfers, and the same unit with every
  identifier allocated.\<close>

definition asyncUnit :: ExternalFileUnit where
  "asyncUnit = initialUnit\<lparr>mayAsynchronous := True\<rparr>"

definition exhaustedAsyncUnit :: ExternalFileUnit where
  "exhaustedAsyncUnit = asyncUnit\<lparr>asyncIdAvailable := replicate 64 False\<rparr>"

text \<open>
  The payload of one record, written by successive calls of \<open>Emit\<close>, one for each chunk of
  data with its element size, and read by successive calls of \<open>Receive\<close>, each into a buffer
  of its own.  Both stop at the first call that returns false.
\<close>

fun Emit_all ::
  "(byte list \<times> nat) list \<Rightarrow> ExternalFileUnit \<Rightarrow> IoErrorHandler
     \<Rightarrow> (bool \<times> ExternalFileUnit \<times> IoErrorHandler) option" where
  "Emit_all [] u handler = Some (True, u, handler)"
| "Emit_all ((data, elementBytes) # chunks) u handler =
     (case Emit data (length data) elementBytes u handler of
        None \<Rightarrow> None
      | Some (ok, u1, handler1) \<Rightarrow>
          if ok then Emit_all chunks u1 handler1 else Some (False, u1, handler1))"

fun Receive_all ::
  "(nat \<times> nat) list \<Rightarrow> ExternalFileUnit \<Rightarrow> IoErrorHandler
     \<Rightarrow> (bool \<times> byte list list \<times> ExternalFileUnit \<times> IoErrorHandler) option" where
  "Receive_all [] u handler = Some (True, [], u, handler)"
| "Receive_all ((bytes, elementBytes) # chunks) u handler =
     (case Receive (replicate bytes 0) bytes elementBytes u handler of
        None \<Rightarrow> None
      | Some (ok, data, u1, handler1) \<Rightarrow>
          if ok
          then (case Receive_all chunks u1 handler1 of
                  None \<Rightarrow> None
                | Some (ok2, rest, u2, handler2) \<Rightarrow> Some (ok2, data # rest, u2, handler2))
          else Some (False, [], u1, handler1))"

text \<open>
  Two states of a unit that differ at most in the fields that \<open>Emit\<close> writes: the position
  and the high-water mark in the record, the stale \<open>recordLength\<close> with
  \<open>beganReadingRecord\<close>, the frame and the bytes of the file.
\<close>

definition agree :: "ExternalFileUnit \<Rightarrow> ExternalFileUnit \<Rightarrow> bool" where
  "agree u u1 \<longleftrightarrow>
     u1\<lparr>recordLength := None, beganReadingRecord := False, frameAt := 0, frameLength := 0,
        fileData := [], positionInRecord := 0, furthestPositionInRecord := 0\<rparr> =
     u\<lparr>recordLength := None, beganReadingRecord := False, frameAt := 0, frameLength := 0,
       fileData := [], positionInRecord := 0, furthestPositionInRecord := 0\<rparr>"

text \<open>The bytes that \<open>Emit\<close> stores for a chunk of data with its element size.\<close>

definition stored :: "bool \<Rightarrow> byte list \<times> nat \<Rightarrow> byte list" where
  "stored swap chunk =
     (if swap then SwapEndianness (fst chunk) (length (fst chunk)) (snd chunk) else fst chunk)"

text \<open>
  One record written in full: the payload by \<open>Emit_all\<close>, then \<open>AdvanceRecord\<close> when every
  \<open>Emit\<close> returned true.
\<close>

definition write_record ::
  "(byte list \<times> nat) list \<Rightarrow> ExternalFileUnit \<Rightarrow> IoErrorHandler
     \<Rightarrow> (bool \<times> ExternalFileUnit \<times> IoErrorHandler) option" where
  "write_record chunks u handler =
     (case Emit_all chunks u handler of
        None \<Rightarrow> None
      | Some (ok, u1, handler1) \<Rightarrow>
          if ok then AdvanceRecord u1 handler1 else Some (False, u1, handler1))"

text \<open>
  A sequential unformatted output unit on an empty file, at the start of a record whose four
  header bytes are reserved; the payload \<open>Hello\<close> as one chunk of single bytes; and a
  sequential unformatted input unit at the start of a file with the given bytes.
\<close>

definition unformattedWriter :: ExternalFileUnit where
  "unformattedWriter =
     initialUnit\<lparr>isUnformatted := Some True, positionInRecord := 4,
                 furthestPositionInRecord := 4\<rparr>"

definition helloChunks :: "(byte list \<times> nat) list" where
  "helloChunks = [([72, 101, 108, 108, 111], 1)]"

definition unformattedReader :: "byte list \<Rightarrow> ExternalFileUnit" where
  "unformattedReader file =
     initialUnit\<lparr>isUnformatted := Some True, direction := Input, fileData := file\<rparr>"

text \<open>
  A payload of \<open>2\<^sup>3\<^sup>1\<close> zero bytes as one chunk, the bytes of the record that holds it, and
  the unit \<open>unformattedWriter\<close> after that record.
\<close>

definition largeChunks :: "(byte list \<times> nat) list" where
  "largeChunks = [(replicate (2 ^ 31) 0, 1)]"

definition largeRecordFile :: "byte list" where
  "largeRecordFile = [0, 0, 0, 128] @ replicate (2 ^ 31) 0 @ [0, 0, 0, 128]"

definition largeWritten :: ExternalFileUnit where
  "largeWritten =
     unformattedWriter\<lparr>positionInRecord := 0, furthestPositionInRecord := 0,
                       frameLength := 2 ^ 31 + 8, fileData := largeRecordFile,
                       frameOffsetInFile := 2 ^ 31 + 8, currentRecordNumber := 2,
                       impliedEndfile := True\<rparr>"




declare SwapEndianness_element.simps [simp del] SwapEndianness_elements.simps [simp del]

section \<open>Properties\<close>

subsection \<open>Endianness swap\<close>



lemma length_std_swap: "length (std_swap d i j) = length d"
  by (simp add: std_swap_def)

lemma length_element: "length (SwapEndianness_element d j e h k) = length d"
  by (induction d j e h k rule: SwapEndianness_element.induct)
     (subst SwapEndianness_element.simps, simp add: length_std_swap)

lemma length_elements: "length (SwapEndianness_elements d b e h j) = length d"
  by (induction d b e h j rule: SwapEndianness_elements.induct)
     (subst SwapEndianness_elements.simps, simp add: length_element)

lemma nth_std_swap:
  "i < length d \<Longrightarrow> j < length d \<Longrightarrow> x < length d \<Longrightarrow>
   std_swap d i j ! x = (if x = j then d ! i else if x = i then d ! j else d ! x)"
  by (simp add: std_swap_def nth_list_update)

lemma nth_element:
  "j + e \<le> length d \<Longrightarrow> k \<le> h \<Longrightarrow> h = e div 2 \<Longrightarrow> i < length d \<Longrightarrow>
   SwapEndianness_element d j e h k ! i =
     (if j + k \<le> i \<and> i < j + e - k then d ! (j + e - 1 - (i - j)) else d ! i)"
proof (induction d j e h k rule: SwapEndianness_element.induct)
  case (1 data j e h k)
  note prems = "1.prems" and IH = "1.IH"
  show ?case
  proof (cases "k < h")
    case False
    with prems(2) have "k = h" by simp
    have "SwapEndianness_element data j e h k = data"
      using False by (subst SwapEndianness_element.simps) simp
    moreover have "j + k \<le> i \<and> i < j + e - k \<Longrightarrow> j + e - 1 - (i - j) = i"
      using \<open>k = h\<close> prems(3) by auto
    ultimately show ?thesis by auto
  next
    case True
    let ?d = "std_swap data (j + k) (j + e - 1 - k)"
    have len: "length ?d = length data" by (simp add: length_std_swap)
    have step: "SwapEndianness_element data j e h k = SwapEndianness_element ?d j e h (k + 1)"
      using True by (subst SwapEndianness_element.simps) simp
    have ih: "SwapEndianness_element ?d j e h (k + 1) ! i =
        (if j + (k + 1) \<le> i \<and> i < j + e - (k + 1) then ?d ! (j + e - 1 - (i - j)) else ?d ! i)"
      using IH[OF True] prems True len by simp
    define a where "a = j + k"
    define b where "b = j + e - 1 - k"
    define m where "m = j + e - 1 - (i - j)"
    have ab: "a < length data" "b < length data" "a < b"
      using True prems by (auto simp: a_def b_def)
    have nth: "\<And>x. x < length data \<Longrightarrow> std_swap data a b ! x =
       (if x = b then data ! a else if x = a then data ! b else data ! x)"
      using ab by (simp add: nth_std_swap)
    have ih': "SwapEndianness_element data j e h k ! i =
        (if a + 1 \<le> i \<and> i < b then std_swap data a b ! m else std_swap data a b ! i)"
      unfolding step ih a_def b_def m_def using True prems by auto
    have goal_eq: "(j + k \<le> i \<and> i < j + e - k) = (a \<le> i \<and> i \<le> b)"
      using True prems by (auto simp: a_def b_def)
    have m: "a < i \<and> i < b \<Longrightarrow> m < length data \<and> m \<noteq> a \<and> m \<noteq> b"
       "i = b \<Longrightarrow> m = a" "i = a \<Longrightarrow> m = b"
      using True prems by (auto simp: a_def b_def m_def)
    have il: "i < length data" using prems by simp
    consider "i < a" | "i = a" | "a < i \<and> i < b" | "i = b" | "b < i" by linarith
    then have "SwapEndianness_element data j e h k ! i =
        (if a \<le> i \<and> i \<le> b then data ! m else data ! i)"
    proof cases
      case 1 then show ?thesis unfolding ih' using ab il by (simp add: nth)
    next
      case 2 then show ?thesis unfolding ih' using ab il m by (simp add: nth)
    next
      case 3 then show ?thesis unfolding ih' using ab il m by (simp add: nth)
    next
      case 4 then show ?thesis unfolding ih' using ab il m by (simp add: nth)
    next
      case 5 then show ?thesis unfolding ih' using ab il by (simp add: nth)
    qed
    then show ?thesis unfolding goal_eq m_def .
  qed
qed

lemma div_unique_nat: "q * e \<le> i \<Longrightarrow> i < q * e + e \<Longrightarrow> i div e = (q::nat)"
  by (rule div_nat_eqI) (simp_all add: mult.commute)

lemma div_ge: "0 < (e::nat) \<Longrightarrow> q * e + e \<le> i \<Longrightarrow> q + 1 \<le> i div e"
  by (metis div_add_self2 div_le_mono div_mult_self_is_m neq0_conv)

lemma div_lt: "i < n * e \<Longrightarrow> i div e < (n::nat)"
  using less_mult_imp_div_less by blast

lemma element_flip:
  "j + e \<le> length d \<Longrightarrow> i < length d \<Longrightarrow>
   SwapEndianness_element d j e (e div 2) 0 ! i =
     (if j \<le> i \<and> i < j + e then d ! (j + e - 1 - (i - j)) else d ! i)"
  using nth_element [of j e d 0 "e div 2" i] by simp

lemma nth_elements:
  "bytes \<le> length d \<Longrightarrow> 1 < e \<Longrightarrow> h = e div 2 \<Longrightarrow> e dvd j \<Longrightarrow> i < length d \<Longrightarrow>
   SwapEndianness_elements d bytes e h j ! i =
     (if j \<le> i \<and> i < bytes div e * e then d ! (i div e * e + (e - 1 - i mod e)) else d ! i)"
proof (induction d bytes e h j rule: SwapEndianness_elements.induct)
  case (1 data bytes e h j)
  note prems = "1.prems" and IH = "1.IH"
  obtain q where q: "j = q * e" using prems(4) by (metis dvd_div_mult_self)
  show ?case
  proof (cases "j + e \<le> bytes")
    case False
    have "SwapEndianness_elements data bytes e h j = data"
      using False by (subst SwapEndianness_elements.simps) simp
    moreover have "bytes div e * e \<le> j"
    proof -
      have "bytes < (q + 1) * e" using False q by simp
      then have "bytes div e < q + 1" by (rule div_lt)
      then have "bytes div e * e \<le> q * e" by simp
      then show ?thesis using q by simp
    qed
    ultimately show ?thesis by auto
  next
    case True
    let ?d = "SwapEndianness_element data j e h 0"
    have len: "length ?d = length data" by (simp add: length_element)
    have step: "SwapEndianness_elements data bytes e h j =
                SwapEndianness_elements ?d bytes e h (j + e)"
      using True prems(2) by (subst SwapEndianness_elements.simps) simp
    have je: "j + e \<le> length data" using True prems(1) by simp
    have flip: "\<And>x. x < length data \<Longrightarrow> ?d ! x =
        (if j \<le> x \<and> x < j + e then data ! (j + e - 1 - (x - j)) else data ! x)"
      using element_flip [OF je] prems(3) by simp
    have ih: "SwapEndianness_elements ?d bytes e h (j + e) ! i =
        (if j + e \<le> i \<and> i < bytes div e * e then ?d ! (i div e * e + (e - 1 - i mod e)) else ?d ! i)"
      using IH prems True len by simp
    define m where "m = i div e * e + (e - 1 - i mod e)"
    define n where "n = bytes div e * e"
    have e0: "0 < e" using prems(2) by simp
    have m_range: "i div e * e \<le> m" "m < i div e * e + e" using e0 by (auto simp: m_def)
    have n_le: "n \<le> bytes" by (simp add: n_def)
    have n_ge: "j + e \<le> n"
    proof -
      have "q + 1 \<le> bytes div e" using True q e0 by (intro div_ge) simp_all
      then have "(q + 1) * e \<le> bytes div e * e" using mult_le_mono1 by blast
      then show ?thesis using q by (simp add: n_def)
    qed
    have ih2: "SwapEndianness_elements data bytes e h j ! i =
        (if j + e \<le> i \<and> i < n then ?d ! m else ?d ! i)"
      unfolding step ih n_def m_def ..
    have il: "i < length data" using prems(5) .
    consider "i < j" | "j \<le> i \<and> i < j + e" | "j + e \<le> i \<and> i < n" | "j + e \<le> i \<and> n \<le> i"
      by linarith
    then have "SwapEndianness_elements data bytes e h j ! i =
      (if j \<le> i \<and> i < n then data ! m else data ! i)"
    proof cases
      case 1
      then show ?thesis unfolding ih2 using il by (simp add: flip)
    next
      case 2
      then have iq: "i div e = q" using q by (intro div_unique_nat) simp_all
      have "i = q * e + i mod e" using iq by (metis div_mult_mod_eq)
      then have "i - j = i mod e" using q by simp
      moreover have "i mod e < e" using e0 by simp
      ultimately have "m = j + e - 1 - (i - j)" using q iq unfolding m_def by simp
      moreover have "i < n" using 2 n_ge by simp
      ultimately show ?thesis unfolding ih2 using 2 il by (simp add: flip)
    next
      case 3
      have "q + 1 \<le> i div e" using 3 q e0 by (intro div_ge) simp_all
      then have "(q + 1) * e \<le> i div e * e" using mult_le_mono1 by blast
      then have "j + e \<le> m" using m_range q by simp
      moreover have "m < length data"
      proof -
        have "i div e < bytes div e" using 3 unfolding n_def by (intro div_lt) simp
        then have "i div e + 1 \<le> bytes div e" by simp
        then have "(i div e + 1) * e \<le> bytes div e * e" using mult_le_mono1 by blast
        then have "m < n" using m_range by (simp add: n_def)
        then show ?thesis using n_le prems(1) by simp
      qed
      ultimately show ?thesis unfolding ih2 using 3 by (simp add: flip)
    next
      case 4
      then show ?thesis unfolding ih2 using il n_ge by (simp add: flip)
    qed
    then show ?thesis unfolding m_def n_def .
  qed
qed

text \<open>
  Claim C8.  For a buffer that holds at least \<open>bytes\<close> bytes, \<open>SwapEndianness\<close> keeps the
  length of the buffer and reverses the bytes within each complete element of \<open>elementBytes\<close>
  bytes that ends at or before offset \<open>bytes\<close>: the byte at offset \<open>i\<close> of such an element
  comes from the mirrored offset of the same element.  Every other byte is unchanged: the whole
  buffer when \<open>elementBytes \<le> 1\<close>, and the trailing partial element (with all that follows
  it) when \<open>bytes\<close> is not a multiple of \<open>elementBytes\<close>.
\<close>

theorem SwapEndianness_reverses_elements:
  assumes "bytes \<le> length data"
  shows "length (SwapEndianness data bytes elementBytes) = length data \<and>
    (\<forall>i < length data. SwapEndianness data bytes elementBytes ! i =
       (if 1 < elementBytes \<and> i < bytes div elementBytes * elementBytes
        then data ! (i div elementBytes * elementBytes + (elementBytes - 1 - i mod elementBytes))
        else data ! i))"
  using assms by (auto simp: SwapEndianness_def length_elements nth_elements)

theorem SwapEndianness_reverses_elements_witness:
  "7 \<le> length [1, 2, 3, 4, 5, 6, 7 :: byte]
   \<and> SwapEndianness [1, 2, 3, 4, 5, 6, 7] 7 3 ! 0 = 3
   \<and> SwapEndianness [1, 2, 3, 4, 5, 6, 7] 7 3 ! 5 = 4
   \<and> SwapEndianness [1, 2, 3, 4, 5, 6, 7] 7 3 ! 6 = 7"
  using SwapEndianness_reverses_elements [of 7 "[1, 2, 3, 4, 5, 6, 7]" 3]
  by simp

subsection \<open>Asynchronous identifiers\<close>

lemma LeastElement_Some:
  "LeastElement bits = Some k \<Longrightarrow> k < length bits \<and> bits ! k \<and> (\<forall>j<k. \<not> bits ! j)"
proof (induction bits arbitrary: k)
  case Nil
  then show ?case by simp
next
  case (Cons b bs)
  show ?case
  proof (cases b)
    case True
    with Cons.prems show ?thesis by simp
  next
    case False
    with Cons.prems obtain k' where k': "LeastElement bs = Some k'" "k = Suc k'"
      by auto
    from Cons.IH [OF k'(1)] False k'(2) show ?thesis
      by (auto simp: nth_Cons split: nat.splits)
  qed
qed

lemma LeastElement_None: "LeastElement bits = None \<longleftrightarrow> (\<forall>b \<in> set bits. \<not> b)"
  by (induction bits) auto

lemma LeastElement_replicate:
  "LeastElement (replicate m False @ True # rest) = Some m"
  by (induction m) auto

lemma successive_all:
  "mayAsynchronous u \<Longrightarrow> asyncIdAvailable u = replicate m False @ replicate k True \<Longrightarrow>
   successive_GetAsynchronousId k u handler =
     (map int [m ..< m + k], u\<lparr>asyncIdAvailable := replicate (m + k) False\<rparr>, handler)"
proof (induction k arbitrary: m u)
  case 0
  then show ?case by simp
next
  case (Suc k)
  let ?u1 = "u\<lparr>asyncIdAvailable := replicate (Suc m) False @ replicate k True\<rparr>"
  have least: "LeastElement (asyncIdAvailable u) = Some m"
    using Suc.prems(2) LeastElement_replicate [of m "replicate k True"] by simp
  have "(replicate m False @ True # replicate k True)[m := False]
          = replicate m False @ False # replicate k True"
    by (simp add: list_update_append)
  also have "\<dots> = replicate (Suc m) False @ replicate k True"
    by (simp add: replicate_app_Cons_same)
  finally have upd: "bitset_reset (asyncIdAvailable u) (int m) =
      replicate (Suc m) False @ replicate k True"
    using Suc.prems(2) by (simp add: bitset_reset_def)
  have step: "GetAsynchronousId u handler = (int m, ?u1, handler)"
    using Suc.prems(1) least upd by (simp add: GetAsynchronousId_def)
  have ih: "successive_GetAsynchronousId k ?u1 handler =
     (map int [Suc m ..< Suc m + k], ?u1\<lparr>asyncIdAvailable := replicate (Suc m + k) False\<rparr>, handler)"
    using Suc.IH [of ?u1 "Suc m"] Suc.prems(1) by simp
  show ?case
    using step ih by (simp add: upt_conv_Cons)
qed

lemma successive_increasing:
  "mayAsynchronous u \<Longrightarrow> \<forall>j<m. j < length (asyncIdAvailable u) \<longrightarrow> \<not> asyncIdAvailable u ! j \<Longrightarrow>
   n \<le> length (filter (\<lambda>b. b) (asyncIdAvailable u)) \<Longrightarrow>
   successive_GetAsynchronousId n u handler = (idents, u', handler') \<Longrightarrow>
   sorted_wrt (<) idents \<and> (\<forall>i \<in> set idents. int m \<le> i \<and> i < int (length (asyncIdAvailable u)))
     \<and> length idents = n \<and> handler' = handler
     \<and> length (asyncIdAvailable u') = length (asyncIdAvailable u)
     \<and> (\<forall>j<m. j < length (asyncIdAvailable u') \<longrightarrow> \<not> asyncIdAvailable u' ! j)"
proof (induction n arbitrary: u m idents)
  case 0
  then show ?case by simp
next
  case (Suc n)
  let ?bits = "asyncIdAvailable u"
  have "filter (\<lambda>b. b) ?bits \<noteq> []" using Suc.prems(3) by auto
  then have "\<not> (\<forall>b \<in> set ?bits. \<not> b)" by (auto simp: filter_empty_conv)
  then obtain k where k: "LeastElement ?bits = Some k"
    using LeastElement_None [of ?bits] by auto
  from LeastElement_Some [OF k] have kp: "k < length ?bits" "?bits ! k" "\<forall>j<k. \<not> ?bits ! j"
    by auto
  have mk: "m \<le> k" using kp Suc.prems(2) by (meson not_le)
  let ?u1 = "u\<lparr>asyncIdAvailable := ?bits[k := False]\<rparr>"
  have step: "GetAsynchronousId u handler = (int k, ?u1, handler)"
    using Suc.prems(1) k by (simp add: GetAsynchronousId_def bitset_reset_def)
  obtain rest where rest: "successive_GetAsynchronousId n ?u1 handler = (rest, u', handler')"
      "idents = int k # rest"
    using Suc.prems(4) step by (auto split: prod.splits)
  have clear: "\<forall>j<Suc k. j < length (asyncIdAvailable ?u1) \<longrightarrow> \<not> asyncIdAvailable ?u1 ! j"
    using kp by (auto simp: nth_list_update less_Suc_eq)
  have "?bits = take k ?bits @ True # drop (Suc k) ?bits"
    using kp by (metis id_take_nth_drop)
  then have "filter (\<lambda>b. b) ?bits =
       filter (\<lambda>b. b) (take k ?bits) @ True # filter (\<lambda>b. b) (drop (Suc k) ?bits)"
    by (metis filter.simps(2) filter_append)
  moreover have "?bits[k := False] = take k ?bits @ False # drop (Suc k) ?bits"
    using kp by (simp add: upd_conv_take_nth_drop)
  ultimately have cnt: "length (filter (\<lambda>b. b) ?bits) = Suc (length (filter (\<lambda>b. b) (?bits[k := False])))"
    by simp
  have n: "n \<le> length (filter (\<lambda>b. b) (asyncIdAvailable ?u1))"
    using Suc.prems(3) cnt by simp
  from Suc.IH [of ?u1 "Suc k" rest, OF _ clear n rest(1)] Suc.prems(1)
  have ih: "sorted_wrt (<) rest" "\<forall>i \<in> set rest. int (Suc k) \<le> i \<and> i < int (length ?bits)"
      "length rest = n" "handler' = handler" "length (asyncIdAvailable u') = length ?bits"
      "\<forall>j<Suc k. j < length (asyncIdAvailable u') \<longrightarrow> \<not> asyncIdAvailable u' ! j"
    by simp_all
  show ?case
    using ih rest(2) kp(1) mk by (auto simp: less_Suc_eq)
qed

lemma size_t_of_int_id: "0 \<le> x \<Longrightarrow> x < 2 ^ 31 \<Longrightarrow> size_t_of_int x = x"
  by (simp add: size_t_of_int_def)

text \<open>
  Claim C6, as amended.  On a unit whose file may be used asynchronously
  (\<open>mayAsynchronous()\<close>) and whose identifier 0 is reserved (its bit is clear):
  \<open>n\<close> successive calls of \<open>GetAsynchronousId\<close>, \<open>n\<close> at most the number of free
  identifiers, return \<open>n\<close> pairwise distinct identifiers, none of them 0, signal nothing and
  leave 0 reserved; when no identifier is free the call signals \<open>TooManyAsyncOps\<close> and returns
  -1; \<open>Wait(0)\<close> returns true and frees every identifier but 0, so that the following W - 1
  calls return 1, ..., W - 1; \<open>Wait\<close> on an identifier that is free returns false and changes
  nothing.
\<close>

theorem async_ids:
  assumes "mayAsynchronous u" and "asyncIdAvailable u = False # rest"
  shows "(n \<le> length (filter (\<lambda>b. b) rest) \<longrightarrow>
            (case successive_GetAsynchronousId n u handler of
               (idents, u', handler') \<Rightarrow>
                 length idents = n \<and> distinct idents \<and>
                 (\<forall>i \<in> set idents. 0 < i \<and> i \<le> int (length rest)) \<and>
                 handler' = handler \<and> \<not> bitset_test (asyncIdAvailable u') 0))
       \<and> ((\<forall>b \<in> set rest. \<not> b) \<longrightarrow>
            GetAsynchronousId u handler = (- 1, u, SignalError IostatTooManyAsyncOps handler))
       \<and> Wait u 0 = (True, u\<lparr>asyncIdAvailable := False # replicate (length rest) True\<rparr>)
       \<and> successive_GetAsynchronousId (length rest) (snd (Wait u 0)) handler =
            (map int [1 ..< Suc (length rest)],
             u\<lparr>asyncIdAvailable := replicate (Suc (length rest)) False\<rparr>, handler)
       \<and> (0 \<le> ident \<and> ident < 2 ^ 31 \<and> bitset_test (asyncIdAvailable u) ident \<longrightarrow>
            Wait u ident = (False, u))"
proof -
  have part1: "case successive_GetAsynchronousId n u handler of
               (idents, u', handler') \<Rightarrow>
                 length idents = n \<and> distinct idents \<and>
                 (\<forall>i \<in> set idents. 0 < i \<and> i \<le> int (length rest)) \<and>
                 handler' = handler \<and> \<not> bitset_test (asyncIdAvailable u') 0"
    if n: "n \<le> length (filter (\<lambda>b. b) rest)"
  proof -
    obtain idents u' handler' where
      s: "successive_GetAsynchronousId n u handler = (idents, u', handler')"
      by (cases "successive_GetAsynchronousId n u handler") auto
    have clear: "\<forall>j<1. j < length (asyncIdAvailable u) \<longrightarrow> \<not> asyncIdAvailable u ! j"
      using assms(2) by simp
    have n': "n \<le> length (filter (\<lambda>b. b) (asyncIdAvailable u))"
      using n assms(2) by simp
    from successive_increasing [OF assms(1) clear n' s]
    have r: "sorted_wrt (<) idents"
        "\<forall>i \<in> set idents. int 1 \<le> i \<and> i < int (length (asyncIdAvailable u))"
        "length idents = n" "handler' = handler"
        "length (asyncIdAvailable u') = length (asyncIdAvailable u)"
        "\<forall>j<1. j < length (asyncIdAvailable u') \<longrightarrow> \<not> asyncIdAvailable u' ! j"
      by blast+
    have "distinct idents" using r(1) by (simp add: strict_sorted_iff)
    moreover have "\<not> bitset_test (asyncIdAvailable u') 0"
      using r(5,6) assms(2) by (simp add: bitset_test_def)
    ultimately show ?thesis using s r assms(2) by auto
  qed
  have part2: "GetAsynchronousId u handler = (- 1, u, SignalError IostatTooManyAsyncOps handler)"
    if "\<forall>b \<in> set rest. \<not> b"
  proof -
    have "LeastElement (asyncIdAvailable u) = None"
      using that assms(2) by (simp add: LeastElement_None)
    then show ?thesis using assms(1) by (simp add: GetAsynchronousId_def)
  qed
  have part3: "Wait u 0 = (True, u\<lparr>asyncIdAvailable := False # replicate (length rest) True\<rparr>)"
    using assms(2)
    by (simp add: Wait_def size_t_of_int_def bitset_test_def bitset_set_all_def bitset_reset_def)
  have part4: "successive_GetAsynchronousId (length rest) (snd (Wait u 0)) handler =
            (map int [1 ..< Suc (length rest)],
             u\<lparr>asyncIdAvailable := replicate (Suc (length rest)) False\<rparr>, handler)"
    using successive_all [of "u\<lparr>asyncIdAvailable := False # replicate (length rest) True\<rparr>"
        1 "length rest" handler] assms(1)
    by (simp add: part3)
  have part5: "Wait u ident = (False, u)"
    if "0 \<le> ident \<and> ident < 2 ^ 31 \<and> bitset_test (asyncIdAvailable u) ident"
    using that by (simp add: Wait_def size_t_of_int_id)
  show ?thesis using part1 part2 part3 part4 part5 by blast
qed

theorem async_ids_witness:
  "fst (successive_GetAsynchronousId 3 asyncUnit noErrors) = [1, 2, 3]
   \<and> GetAsynchronousId exhaustedAsyncUnit noErrors =
       (- 1, exhaustedAsyncUnit, SignalError IostatTooManyAsyncOps noErrors)
   \<and> Wait exhaustedAsyncUnit 0 = (True, asyncUnit)
   \<and> Wait asyncUnit 5 = (False, asyncUnit)"
proof -
  have a: "mayAsynchronous asyncUnit" "asyncIdAvailable asyncUnit = False # replicate 63 True"
    and e: "mayAsynchronous exhaustedAsyncUnit"
       "asyncIdAvailable exhaustedAsyncUnit = False # replicate 63 False"
    and t: "bitset_test (asyncIdAvailable asyncUnit) 5"
    and w: "exhaustedAsyncUnit\<lparr>asyncIdAvailable := False # replicate 63 True\<rparr> = asyncUnit"
    by (simp_all add: asyncUnit_def exhaustedAsyncUnit_def initialUnit_def bitset_test_def
          numeral_eq_Suc)
  have three: "(3::nat) \<le> length (filter (\<lambda>b. b) (replicate 63 True))" by simp
  have s: "fst (successive_GetAsynchronousId 3 asyncUnit noErrors) = [1, 2, 3]"
    using a by (simp add: numeral_3_eq_3 GetAsynchronousId_def bitset_reset_def numeral_eq_Suc)
  from async_ids [OF a, of 3 noErrors 5] three t s
       async_ids [OF e, of 0 noErrors 0] w
  show ?thesis by simp
qed

text \<open>
  The claim as stated fails on a unit whose file may not be used asynchronously: identifiers
  remain, yet two successive calls both return -1, and with no identifier left the call
  signals \<open>BadAsynchronous\<close>, not \<open>TooManyAsyncOps\<close>.
\<close>

theorem async_ids_counterexample:
  "LeastElement (asyncIdAvailable initialUnit) = Some 1
   \<and> fst (successive_GetAsynchronousId 2 initialUnit noErrors) = [- 1, - 1]
   \<and> \<not> distinct (fst (successive_GetAsynchronousId 2 initialUnit noErrors))
   \<and> GetAsynchronousId (initialUnit\<lparr>asyncIdAvailable := replicate 64 False\<rparr>) noErrors
       = (- 1, initialUnit\<lparr>asyncIdAvailable := replicate 64 False\<rparr>,
          SignalError IostatBadAsynchronous noErrors)"
  by (simp add: initialUnit_def numeral_2_eq_2 GetAsynchronousId_def numeral_eq_Suc)

text \<open>
  Claim C10.  For every negative \<open>id\<close> of type \<open>int\<close> and a bit set of at most
  \<open>2^64 - 2^31\<close> bits, the conversion of \<open>id\<close> to \<open>std::size_t\<close> is at least the size
  of the bit set, and \<open>Wait(id)\<close> returns false and leaves the unit, with its bit set,
  unchanged.
\<close>

theorem Wait_negative:
  assumes "ident < 0" and "- (2 ^ 31) \<le> ident"
    and "int (length (asyncIdAvailable u)) \<le> 2 ^ 64 - 2 ^ 31"
  shows "size_t_of_int ident \<ge> int (length (asyncIdAvailable u)) \<and> Wait u ident = (False, u)"
proof -
  have "(ident + 2 ^ 64) mod 2 ^ 64 = ident + 2 ^ 64"
    using assms(1,2) by (intro mod_pos_pos_trivial) simp_all
  then have "size_t_of_int ident = ident + 2 ^ 64"
    unfolding size_t_of_int_def by simp
  then have "size_t_of_int ident \<ge> int (length (asyncIdAvailable u))"
    using assms by simp
  then show ?thesis by (simp add: Wait_def)
qed

theorem Wait_negative_witness:
  "Wait initialUnit (- 1) = (False, initialUnit)"
proof -
  have "int (length (asyncIdAvailable initialUnit)) \<le> 2 ^ 64 - 2 ^ 31"
    by (simp add: initialUnit_def)
  from Wait_negative [of "- 1" initialUnit, OF _ _ this] show ?thesis by simp
qed

subsection \<open>Emit and Receive\<close>

text \<open>
  Claim C2.  For every unit with \<open>openRecl\<close> set, a call of \<open>Emit\<close> whose
  \<open>furthestAfter = max(furthestPositionInRecord, positionInRecord + bytes)\<close> exceeds
  \<open>openRecl\<close> plus the allowed overhead (8 for sequential unformatted; for any other
  sequential unit 1, and 1 more on Windows when the file is not a Windows text file; 0 when the
  access is not sequential) returns false, signals \<open>RecordWriteOverrun\<close> and leaves the unit,
  with \<open>positionInRecord\<close> and \<open>furthestPositionInRecord\<close>, unchanged.
\<close>

theorem Emit_overrun:
  assumes "openRecl u = Some recl"
    and "max (furthestPositionInRecord u) (positionInRecord u + int bytes) >
           recl + (if access u = Sequential \<and> isUnformatted u = Some True then 8
                   else if access u = Sequential
                   then 1 + (if isWin32 u \<and> \<not> isWindowsTextFile u then 1 else 0)
                   else 0)"
  shows "Emit data bytes elementBytes u handler =
           Some (False, u, SignalError IostatRecordWriteOverrun handler)"
proof -
  have v: "value_or (isUnformatted u) False = (isUnformatted u = Some True)"
    by (cases "isUnformatted u") (auto simp: value_or_def)
  have "max (furthestPositionInRecord u) (positionInRecord u + int bytes) >
          (if access u = Sequential
           then (if value_or (isUnformatted u) False then 2 * 4
                 else (if isWin32 u \<and> \<not> isWindowsTextFile u then 1 else 0) + 1)
           else 0) + recl"
    using assms(2) unfolding v by (auto split: if_splits)
  then show ?thesis
    using assms(1) by (simp add: Emit_def Let_def split del: if_split)
qed

theorem Emit_overrun_witness:
  "Emit [65, 66, 67] 3 1 (initialUnit\<lparr>openRecl := Some 1, isUnformatted := Some False\<rparr>) noErrors =
     Some (False, initialUnit\<lparr>openRecl := Some 1, isUnformatted := Some False\<rparr>,
           \<lparr>signals = [SignalledError IostatRecordWriteOverrun []]\<rparr>)"
  using Emit_overrun [of "initialUnit\<lparr>openRecl := Some 1, isUnformatted := Some False\<rparr>" 1 3 "[65, 66, 67]" 1 noErrors]
  by (simp add: initialUnit_def noErrors_def SignalError_def)

text \<open>
  Claim C3 fails on the code: on a direct-access unit for which no \<open>REC=\<close> was given,
  \<open>Emit\<close> signals the error through \<open>CheckDirectAccess\<close> but drops its result, moves the
  two bytes into the frame, advances the positions and returns true.
\<close>

theorem Emit_direct_without_rec:
  "Emit [65, 66] 2 1
     (initialUnit\<lparr>access := Direct, openRecl := Some 8, isUnformatted := Some False\<rparr>) noErrors =
   Some (True,
         initialUnit\<lparr>access := Direct, openRecl := Some 8, isUnformatted := Some False,
                     fileData := [65, 66], frameLength := 2,
                     positionInRecord := 2, furthestPositionInRecord := 2\<rparr>,
         \<lparr>signals = [SignalledError IostatGenericError NoRecMessage]\<rparr>)"
  by (simp add: Emit_def Let_def initialUnit_def noErrors_def IsAfterEndfile_def
        CheckDirectAccess_def SignalErrorMessage_def WriteFrame_def FrameStore_def
        FrameContents_def value_or_def extend_def overwrite_def)

text \<open>
  Claim C5.  For every call of \<open>Receive\<close> on an input unit whose \<open>recordLength\<close> is known,
  if \<open>max(furthestPositionInRecord, positionInRecord + bytes)\<close> exceeds \<open>recordLength\<close>
  the call returns false, signals \<open>RecordReadOverrun\<close> and leaves the caller's buffer and the
  unit, with \<open>positionInRecord\<close> and \<open>furthestPositionInRecord\<close>, unchanged.
\<close>

theorem Receive_overrun:
  assumes "direction u = Input"
    and "recordLength u = Some len"
    and "max (furthestPositionInRecord u) (positionInRecord u + int bytes) > len"
  shows "Receive data bytes elementBytes u handler =
           Some (False, data, u, SignalError IostatRecordReadOverrun handler)"
  using assms by (simp add: Receive_def Let_def value_or_def)

theorem Receive_overrun_witness:
  "Receive [0, 0, 0] 3 1 (initialUnit\<lparr>direction := Input, recordLength := Some 2\<rparr>) noErrors =
     Some (False, [0, 0, 0], initialUnit\<lparr>direction := Input, recordLength := Some 2\<rparr>,
           \<lparr>signals = [SignalledError IostatRecordReadOverrun []]\<rparr>)"
  using Receive_overrun [of "initialUnit\<lparr>direction := Input, recordLength := Some 2\<rparr>" 2 3 "[0,0,0]" 1 noErrors]
  by (simp add: initialUnit_def noErrors_def SignalError_def)

subsection \<open>Reading records\<close>




text \<open>
  Claim C9, as amended.  When \<open>recordLength\<close> is not yet known and the access is not direct,
  for every frame in which the first byte of the current record (at \<open>recordOffsetInFrame\<close>)
  is a newline, \<open>SetVariableFormattedRecordLength\<close> sets \<open>recordLength\<close> to 0, returns true
  and reads the byte at \<open>recordOffsetInFrame\<close> only: no byte before the start of the record.
\<close>

theorem SetVariableFormattedRecordLength_empty_record:
  assumes "recordLength u = None" and "access u \<noteq> Direct"
    and "Frame u (recordOffsetInFrame u) = Some 10"
  shows "SetVariableFormattedRecordLength u =
           ([recordOffsetInFrame u], u\<lparr>recordLength := Some 0\<rparr>, True)"
proof -
  from assms(3) have r: "0 \<le> recordOffsetInFrame u"
      "nat (recordOffsetInFrame u) < length (FrameContents u)"
      "FrameContents u ! nat (recordOffsetInFrame u) = 10"
    by (auto simp: Frame_def split: if_splits)
  have len: "length (FrameContents u) \<le> nat (frameLength u)"
    by (simp add: FrameContents_def)
  have fl: "frameLength u > recordOffsetInFrame u" using r len by linarith
  obtain rest where d: "drop (nat (recordOffsetInFrame u)) (FrameContents u) = 10 # rest"
    using r by (metis Cons_nth_drop_Suc)
  have "take (nat (frameLength u - recordOffsetInFrame u)) (10 # rest)
          = 10 # take (nat (frameLength u - recordOffsetInFrame u) - 1) rest"
    using fl by (cases "nat (frameLength u - recordOffsetInFrame u)") auto
  then show ?thesis
    using assms(1,2) fl d by (simp add: SetVariableFormattedRecordLength_def Let_def)
qed

theorem SetVariableFormattedRecordLength_empty_record_witness:
  "SetVariableFormattedRecordLength unitAtEmptyRecord =
     ([2], unitAtEmptyRecord\<lparr>recordLength := Some 0\<rparr>, True)"
proof -
  have h: "recordLength unitAtEmptyRecord = None" "access unitAtEmptyRecord \<noteq> Direct"
      "Frame unitAtEmptyRecord (recordOffsetInFrame unitAtEmptyRecord) = Some 10"
    and r: "recordOffsetInFrame unitAtEmptyRecord = 2"
    by (simp_all add: unitAtEmptyRecord_def initialUnit_def Frame_def FrameContents_def)
  from SetVariableFormattedRecordLength_empty_record [OF h] r show ?thesis by simp
qed

text \<open>
  The claim as stated fails when the length of the record is already known or the access is
  direct: the call returns true at once and \<open>recordLength\<close> keeps its value.
\<close>

theorem SetVariableFormattedRecordLength_direct_counterexample:
  "Frame directUnitAtNewline (recordOffsetInFrame directUnitAtNewline) = Some 10
   \<and> SetVariableFormattedRecordLength directUnitAtNewline = ([], directUnitAtNewline, True)
   \<and> recordLength directUnitAtNewline = Some 8
   \<and> recordLength (fst (snd (SetVariableFormattedRecordLength directUnitAtNewline))) \<noteq> Some 0"
  by (simp add: directUnitAtNewline_def initialUnit_def Frame_def FrameContents_def
        SetVariableFormattedRecordLength_def)

subsection \<open>Writing and reading a sequential unformatted record\<close>

lemma length_extend: "length (extend f n) = max (length f) n"
  by (simp add: extend_def)

lemma length_overwrite: "at + length bs \<le> length f \<Longrightarrow> length (overwrite f at bs) = length f"
  by (simp add: overwrite_def)

lemma reset_recordLength:
  "(if recordLength u \<noteq> None then u\<lparr>recordLength := None, beganReadingRecord := False\<rparr> else u)
     = u\<lparr>recordLength := None,
         beganReadingRecord := (beganReadingRecord u \<and> recordLength u = None)\<rparr>"
  by (cases u) auto

lemma FrameContents_window:
  "nat (frameAt u) + nat (frameLength u) \<le> length (fileData u) \<Longrightarrow>
   length (FrameContents u) = nat (frameLength u)"
  by (simp add: FrameContents_def)

lemma FrameStore_window:
  assumes "0 \<le> frameAt u" "0 \<le> i" "nat i + length bs \<le> nat (frameLength u)"
    "nat (frameAt u) + nat (frameLength u) \<le> length (fileData u)"
  shows "FrameStore u i bs =
     Some (u\<lparr>fileData := overwrite (fileData u) (nat (frameAt u) + nat i) bs\<rparr>)"
proof -
  have "length (FrameContents u) = nat (frameLength u)"
    using assms by (intro FrameContents_window) auto
  then show ?thesis using assms by (simp add: FrameStore_def)
qed

lemma FrameBytes_window:
  assumes "0 \<le> frameAt u" "0 \<le> i" "nat i + n \<le> nat (frameLength u)"
    "nat (frameAt u) + nat (frameLength u) \<le> length (fileData u)"
  shows "FrameBytes u i n = Some (take n (drop (nat (frameAt u) + nat i) (fileData u)))"
proof -
  have "length (FrameContents u) = nat (frameLength u)"
    using assms by (intro FrameContents_window) auto
  moreover have "take n (drop (nat i) (FrameContents u)) =
       take n (drop (nat (frameAt u) + nat i) (fileData u))"
  proof -
    have "n \<le> nat (frameLength u) - nat i" using assms(3) by linarith
    then show ?thesis
      by (simp add: FrameContents_def drop_take add.commute min_absorb1)
  qed
  ultimately show ?thesis using assms by (simp add: FrameBytes_def)
qed

lemma take_drop_overwrite:
  "at + length bs \<le> length f \<Longrightarrow> take (length bs) (drop at (overwrite f at bs)) = bs"
  by (simp add: overwrite_def)

lemma overwrite_overwrite:
  "at + length bs \<le> length f \<Longrightarrow> length cs = length bs \<Longrightarrow>
   overwrite (overwrite f at bs) at cs = overwrite f at cs"
  by (simp add: overwrite_def)

lemma length_SwapEndianness [simp]: "length (SwapEndianness d b e) = length d"
  by (simp add: SwapEndianness_def length_elements)

lemma IsAfterEndfile_reset [simp]:
  "IsAfterEndfile (u\<lparr>recordLength := r, beganReadingRecord := b\<rparr>) = IsAfterEndfile u"
  by (simp add: IsAfterEndfile_def split: option.splits)

lemma CheckDirectAccess_not_direct:
  "access u \<noteq> Direct \<Longrightarrow> CheckDirectAccess u h = Some (True, h)"
  by (simp add: CheckDirectAccess_def)

lemma Emit_sequential:
  assumes "access u \<noteq> Direct"
    and "0 \<le> frameOffsetInFile u" and "0 \<le> recordOffsetInFrame u"
    and "0 \<le> positionInRecord u" and "positionInRecord u \<le> furthestPositionInRecord u"
    and "\<not> IsAfterEndfile u"
    and "\<not> (case openRecl u of
              Some recl \<Rightarrow>
                max (furthestPositionInRecord u) (positionInRecord u + int (length data)) >
                 (if access u = Sequential
                   then (if value_or (isUnformatted u) False then 2 * 4
                         else (if isWin32 u \<and> \<not> isWindowsTextFile u then 1 else 0) + 1)
                   else 0) + recl
            | None \<Rightarrow> False)"
  shows "Emit data (length data) eb u h =
     Some (True,
       u\<lparr>recordLength := None,
         beganReadingRecord := (beganReadingRecord u \<and> recordLength u = None),
         frameAt := frameOffsetInFile u,
         frameLength := recordOffsetInFrame u +
            max (furthestPositionInRecord u) (positionInRecord u + int (length data)),
         fileData :=
            overwrite
              (extend (fileData u)
                 (nat (frameOffsetInFile u + (recordOffsetInFrame u +
                    max (furthestPositionInRecord u) (positionInRecord u + int (length data))))))
              (nat (frameOffsetInFile u) + nat (recordOffsetInFrame u + positionInRecord u))
              (if swapEndianness u then SwapEndianness data (length data) eb else data),
         positionInRecord := positionInRecord u + int (length data),
         furthestPositionInRecord :=
            max (furthestPositionInRecord u) (positionInRecord u + int (length data))\<rparr>,
       h)"
proof -
  define fa where "fa = max (furthestPositionInRecord u) (positionInRecord u + int (length data))"
  define ur where "ur = u\<lparr>recordLength := None,
         beganReadingRecord := (beganReadingRecord u \<and> recordLength u = None)\<rparr>"
  define uw where "uw = WriteFrame (frameOffsetInFile ur) (recordOffsetInFrame ur + fa) ur"
  define at where "at = nat (frameOffsetInFile u) + nat (recordOffsetInFrame u + positionInRecord u)"
  define f0 where "f0 = extend (fileData u) (nat (frameOffsetInFile u + (recordOffsetInFrame u + fa)))"
  have fa: "positionInRecord u + int (length data) \<le> fa" "furthestPositionInRecord u \<le> fa"
    by (simp_all add: fa_def)
  have uw: "frameAt uw = frameOffsetInFile u" "frameLength uw = recordOffsetInFrame u + fa"
      "fileData uw = f0" "positionInRecord uw = positionInRecord u"
      "furthestPositionInRecord uw = furthestPositionInRecord u"
      "recordOffsetInFrame uw = recordOffsetInFrame u" "swapEndianness uw = swapEndianness u"
    by (simp_all add: uw_def ur_def WriteFrame_def f0_def)
  have fit: "at + length data \<le> length f0"
    using assms(2-5) fa by (simp add: at_def f0_def length_extend)
  have store1: "FrameStore uw (recordOffsetInFrame u + positionInRecord u) data =
      Some (uw\<lparr>fileData := overwrite f0 at data\<rparr>)"
  proof -
    have "FrameStore uw (recordOffsetInFrame u + positionInRecord u) data =
      Some (uw\<lparr>fileData := overwrite (fileData uw)
          (nat (frameAt uw) + nat (recordOffsetInFrame u + positionInRecord u)) data\<rparr>)"
      using assms(2-5) fa by (intro FrameStore_window) (simp_all add: uw length_extend f0_def)
    then show ?thesis by (simp add: uw at_def)
  qed
  define us where "us = uw\<lparr>fileData := overwrite f0 at data\<rparr>"
  have us: "frameAt us = frameOffsetInFile u" "frameLength us = recordOffsetInFrame u + fa"
      "fileData us = overwrite f0 at data" "swapEndianness us = swapEndianness u"
      "positionInRecord us = positionInRecord u" "recordOffsetInFrame us = recordOffsetInFrame u"
    by (simp_all add: us_def uw)
  have read: "FrameBytes us (recordOffsetInFrame u + positionInRecord u) (length data) = Some data"
  proof -
    have "FrameBytes us (recordOffsetInFrame u + positionInRecord u) (length data) =
      Some (take (length data)
         (drop (nat (frameAt us) + nat (recordOffsetInFrame u + positionInRecord u)) (fileData us)))"
      using assms(2-5) fa fit
      by (intro FrameBytes_window) (simp_all add: us length_extend f0_def length_overwrite)
    then show ?thesis using fit by (simp add: us at_def [symmetric] take_drop_overwrite)
  qed
  have store2: "FrameStore us (recordOffsetInFrame u + positionInRecord u)
        (SwapEndianness data (length data) eb) =
      Some (us\<lparr>fileData := overwrite f0 at (SwapEndianness data (length data) eb)\<rparr>)"
  proof -
    have "FrameStore us (recordOffsetInFrame u + positionInRecord u)
        (SwapEndianness data (length data) eb) =
      Some (us\<lparr>fileData := overwrite (fileData us)
          (nat (frameAt us) + nat (recordOffsetInFrame u + positionInRecord u))
          (SwapEndianness data (length data) eb)\<rparr>)"
      using assms(2-5) fa fit
      by (intro FrameStore_window) (simp_all add: us length_extend f0_def length_overwrite)
    then show ?thesis using fit by (simp add: us at_def [symmetric] overwrite_overwrite)
  qed
  have reset: "(if recordLength u \<noteq> None
               then u\<lparr>recordLength := None, beganReadingRecord := False\<rparr> else u) = ur"
    unfolding ur_def by (rule reset_recordLength)
  have no_ov: "\<not> (case openRecl u of
              Some recl \<Rightarrow>
                fa >
                 (if access u = Sequential
                   then (if value_or (isUnformatted u) False then 2 * 4
                         else (if isWin32 u \<and> \<not> isWindowsTextFile u then 1 else 0) + 1)
                   else 0) + recl
            | None \<Rightarrow> False)"
    using assms(7) unfolding fa_def .
  have no_eof: "\<not> IsAfterEndfile ur" using assms(6) by (simp add: ur_def)
  have cda: "CheckDirectAccess ur h = Some (True, h)"
    using assms(1) by (simp add: CheckDirectAccess_not_direct ur_def)
  have nogap: "\<not> positionInRecord uw > furthestPositionInRecord uw"
    using assms(5) by (simp add: uw)
  have "Emit data (length data) eb u h =
     Some (True,
           (if swapEndianness u
            then us\<lparr>fileData := overwrite f0 at (SwapEndianness data (length data) eb)\<rparr>
            else us)
           \<lparr>positionInRecord := positionInRecord u + int (length data),
            furthestPositionInRecord := fa\<rparr>, h)"
    unfolding Emit_def Let_def fa_def [symmetric] reset
    apply (simp only: no_ov no_eof if_False cda)
    apply (simp only: uw_def [symmetric])
    using assms(5)
    apply (cases "swapEndianness u")
     apply (simp_all add: uw store1 us_def [symmetric] read store2 us)
    done
  also have "\<dots> = Some (True,
       u\<lparr>recordLength := None,
         beganReadingRecord := (beganReadingRecord u \<and> recordLength u = None),
         frameAt := frameOffsetInFile u,
         frameLength := recordOffsetInFrame u + fa,
         fileData := overwrite f0 at
              (if swapEndianness u then SwapEndianness data (length data) eb else data),
         positionInRecord := positionInRecord u + int (length data),
         furthestPositionInRecord := fa\<rparr>, h)"
    by (simp add: us_def uw_def ur_def WriteFrame_def)
  finally show ?thesis
    unfolding fa_def f0_def at_def .
qed

lemma Emit_false_on_overrun:
  "(case openRecl u of
      Some recl \<Rightarrow>
        max (furthestPositionInRecord u) (positionInRecord u + int bytes) >
         (if access u = Sequential
           then (if value_or (isUnformatted u) False then 2 * 4
                 else (if isWin32 u \<and> \<not> isWindowsTextFile u then 1 else 0) + 1)
           else 0) + recl
    | None \<Rightarrow> False) \<Longrightarrow>
   Emit data bytes eb u h = Some (False, u, SignalError IostatRecordWriteOverrun h)"
  by (simp add: Emit_def Let_def split del: if_split)

lemma Emit_false_after_endfile:
  "IsAfterEndfile u \<Longrightarrow> \<exists>u' h'. Emit data bytes eb u h = Some (False, u', h')"
proof (cases "case openRecl u of
      Some recl \<Rightarrow>
        max (furthestPositionInRecord u) (positionInRecord u + int bytes) >
         (if access u = Sequential
           then (if value_or (isUnformatted u) False then 2 * 4
                 else (if isWin32 u \<and> \<not> isWindowsTextFile u then 1 else 0) + 1)
           else 0) + recl
    | None \<Rightarrow> False")
  case True
  then show ?thesis using Emit_false_on_overrun by blast
next
  case False
  assume "IsAfterEndfile u"
  then show ?thesis using False
    by (cases "recordLength u") (simp_all add: Emit_def Let_def split del: if_split)
qed

lemma Emit_True:
  assumes "Emit data (length data) eb u h = Some (True, u', h')"
    and "access u \<noteq> Direct"
    and "0 \<le> frameOffsetInFile u" and "0 \<le> recordOffsetInFrame u"
    and "0 \<le> positionInRecord u" and "positionInRecord u \<le> furthestPositionInRecord u"
  shows "h' = h \<and> \<not> IsAfterEndfile u \<and>
     u' = u\<lparr>recordLength := None,
         beganReadingRecord := (beganReadingRecord u \<and> recordLength u = None),
         frameAt := frameOffsetInFile u,
         frameLength := recordOffsetInFrame u +
            max (furthestPositionInRecord u) (positionInRecord u + int (length data)),
         fileData :=
            overwrite
              (extend (fileData u)
                 (nat (frameOffsetInFile u + (recordOffsetInFrame u +
                    max (furthestPositionInRecord u) (positionInRecord u + int (length data))))))
              (nat (frameOffsetInFile u) + nat (recordOffsetInFrame u + positionInRecord u))
              (if swapEndianness u then SwapEndianness data (length data) eb else data),
         positionInRecord := positionInRecord u + int (length data),
         furthestPositionInRecord :=
            max (furthestPositionInRecord u) (positionInRecord u + int (length data))\<rparr>"
proof -
  let ?ov = "case openRecl u of
              Some recl \<Rightarrow>
                max (furthestPositionInRecord u) (positionInRecord u + int (length data)) >
                 (if access u = Sequential
                   then (if value_or (isUnformatted u) False then 2 * 4
                         else (if isWin32 u \<and> \<not> isWindowsTextFile u then 1 else 0) + 1)
                   else 0) + recl
            | None \<Rightarrow> False"
  have nov: "\<not> ?ov"
  proof
    assume ?ov
    then have "Emit data (length data) eb u h =
        Some (False, u, SignalError IostatRecordWriteOverrun h)"
      by (rule Emit_false_on_overrun)
    with assms(1) show False by simp
  qed
  have neof: "\<not> IsAfterEndfile u"
  proof
    assume "IsAfterEndfile u"
    then obtain u0 h0 where "Emit data (length data) eb u h = Some (False, u0, h0)"
      using Emit_false_after_endfile by blast
    with assms(1) show False by simp
  qed
  have "Emit data (length data) eb u h = Some (True, u', h')" by (rule assms(1))
  then show ?thesis
    unfolding Emit_sequential [OF assms(2-6) neof nov, of eb h] using neof by blast
qed

lemma take_drop_prefix:
  assumes "n + k \<le> m" and "take m F = take m G"
  shows "take k (drop n F) = take k (drop n G)"
proof -
  have k: "min k (m - n) = k" using assms(1) by simp
  have "\<And>H. take k (drop n (take m H)) = take k (drop n H)"
    by (simp only: drop_take take_take k)
  then show ?thesis using assms(2) by metis
qed

lemma take_prefix: "n \<le> m \<Longrightarrow> take m F = take m G \<Longrightarrow> take n F = take n G"
  using take_drop_prefix [of 0 n m F G] by simp

lemma take_overwrite_before:
  "n \<le> at \<Longrightarrow> at \<le> length f \<Longrightarrow> take n (overwrite f at bs) = take n f"
  by (simp add: overwrite_def)

lemma take_extend: "n \<le> length f \<Longrightarrow> take n (extend f m) = take n f"
  by (simp add: extend_def)

lemma length_stored [simp]: "length (stored swap chunk) = length (fst chunk)"
  by (simp add: stored_def)

lemma agree_refl [simp]: "agree u u"
  by (simp add: agree_def)

lemma agree_trans: "agree u v \<Longrightarrow> agree v w \<Longrightarrow> agree u w"
  unfolding agree_def by (erule (1) trans [rotated])

lemma agree_update [simp]:
  "agree u (u\<lparr>recordLength := rl, beganReadingRecord := brr, frameAt := fAt,
             frameLength := fLen, fileData := F, positionInRecord := p,
             furthestPositionInRecord := q\<rparr>)"
  by (simp add: agree_def)

lemma agree_fields:
  assumes "agree u u1"
  shows "access u1 = access u" "isUnformatted u1 = isUnformatted u"
    "openRecl u1 = openRecl u" "endfileRecordNumber u1 = endfileRecordNumber u"
    "currentRecordNumber u1 = currentRecordNumber u" "leftTabLimit u1 = leftTabLimit u"
    "direction u1 = direction u" "impliedEndfile u1 = impliedEndfile u"
    "swapEndianness u1 = swapEndianness u" "frameOffsetInFile u1 = frameOffsetInFile u"
    "recordOffsetInFrame u1 = recordOffsetInFrame u" "mayPosition u1 = mayPosition u"
    "isWindowsTextFile u1 = isWindowsTextFile u" "isWin32 u1 = isWin32 u"
    "isHostLittleEndian u1 = isHostLittleEndian u" "readAhead u1 = readAhead u"
proof -
  have e: "u1\<lparr>recordLength := None, beganReadingRecord := False, frameAt := 0, frameLength := 0,
        fileData := [], positionInRecord := 0, furthestPositionInRecord := 0\<rparr> =
     u\<lparr>recordLength := None, beganReadingRecord := False, frameAt := 0, frameLength := 0,
       fileData := [], positionInRecord := 0, furthestPositionInRecord := 0\<rparr>"
    using assms unfolding agree_def .
  show "access u1 = access u" using arg_cong [OF e, of access] by simp
  show "isUnformatted u1 = isUnformatted u" using arg_cong [OF e, of isUnformatted] by simp
  show "openRecl u1 = openRecl u" using arg_cong [OF e, of openRecl] by simp
  show "endfileRecordNumber u1 = endfileRecordNumber u"
    using arg_cong [OF e, of endfileRecordNumber] by simp
  show "currentRecordNumber u1 = currentRecordNumber u"
    using arg_cong [OF e, of currentRecordNumber] by simp
  show "leftTabLimit u1 = leftTabLimit u" using arg_cong [OF e, of leftTabLimit] by simp
  show "direction u1 = direction u" using arg_cong [OF e, of direction] by simp
  show "impliedEndfile u1 = impliedEndfile u" using arg_cong [OF e, of impliedEndfile] by simp
  show "swapEndianness u1 = swapEndianness u" using arg_cong [OF e, of swapEndianness] by simp
  show "frameOffsetInFile u1 = frameOffsetInFile u"
    using arg_cong [OF e, of frameOffsetInFile] by simp
  show "recordOffsetInFrame u1 = recordOffsetInFrame u"
    using arg_cong [OF e, of recordOffsetInFrame] by simp
  show "mayPosition u1 = mayPosition u" using arg_cong [OF e, of mayPosition] by simp
  show "isWindowsTextFile u1 = isWindowsTextFile u"
    using arg_cong [OF e, of isWindowsTextFile] by simp
  show "isWin32 u1 = isWin32 u" using arg_cong [OF e, of isWin32] by simp
  show "isHostLittleEndian u1 = isHostLittleEndian u"
    using arg_cong [OF e, of isHostLittleEndian] by simp
  show "readAhead u1 = readAhead u" using arg_cong [OF e, of readAhead] by simp
qed

lemma Emit_all_sequential:
  assumes "Emit_all chunks u h = Some (True, u1, h1)"
    and "access u \<noteq> Direct"
    and "0 \<le> frameOffsetInFile u" and "0 \<le> recordOffsetInFrame u"
    and "0 \<le> positionInRecord u" and "furthestPositionInRecord u = positionInRecord u"
  shows "h1 = h \<and> agree u u1
       \<and> positionInRecord u1 = positionInRecord u + int (length (concat (map fst chunks)))
       \<and> furthestPositionInRecord u1 = positionInRecord u1
       \<and> take (length (concat (map fst chunks)))
            (drop (nat (frameOffsetInFile u + recordOffsetInFrame u + positionInRecord u))
               (fileData u1))
          = concat (map (stored (swapEndianness u)) chunks)
       \<and> (nat (frameOffsetInFile u + recordOffsetInFrame u + positionInRecord u)
             \<le> length (fileData u) \<longrightarrow>
           take (nat (frameOffsetInFile u + recordOffsetInFrame u + positionInRecord u))
             (fileData u1) =
           take (nat (frameOffsetInFile u + recordOffsetInFrame u + positionInRecord u))
             (fileData u))"
  using assms
proof (induction chunks arbitrary: u)
  case Nil
  then show ?case by simp
next
  case (Cons c cs)
  obtain d e where c: "c = (d, e)" by (cases c)
  define n where "n = nat (frameOffsetInFile u + recordOffsetInFrame u + positionInRecord u)"
  define fa where "fa = positionInRecord u + int (length d)"
  obtain ok ua ha where em: "Emit d (length d) e u h = Some (ok, ua, ha)"
    using Cons.prems(1) unfolding c by (auto split: option.splits)
  have ok: ok and rest: "Emit_all cs ua ha = Some (True, u1, h1)"
    using Cons.prems(1) em unfolding c by (auto split: if_splits)
  have le: "positionInRecord u \<le> furthestPositionInRecord u" using Cons.prems(6) by simp
  define Fa where "Fa = overwrite
              (extend (fileData u)
                 (nat (frameOffsetInFile u + (recordOffsetInFrame u + fa))))
              n (stored (swapEndianness u) (d, e))"
  from Emit_True [OF em [unfolded \<open>ok\<close> eq_True [THEN iffD2, OF ok]] Cons.prems(2-5) le]
  have ha: "ha = h"
    and ua: "ua = u\<lparr>recordLength := None,
         beganReadingRecord := (beganReadingRecord u \<and> recordLength u = None),
         frameAt := frameOffsetInFile u,
         frameLength := recordOffsetInFrame u + fa,
         fileData := Fa,
         positionInRecord := fa,
         furthestPositionInRecord := fa\<rparr>"
    using Cons.prems(3-6)
    by (simp_all add: fa_def Fa_def n_def stored_def nat_add_distrib add.assoc)
  have ag: "agree u ua" unfolding ua by (rule agree_update)
  have fit: "n + length d \<le> length (extend (fileData u)
                 (nat (frameOffsetInFile u + (recordOffsetInFrame u + fa))))"
    using Cons.prems(3-5) by (simp add: length_extend n_def fa_def)
  have lenFa: "length Fa = length (extend (fileData u)
                 (nat (frameOffsetInFile u + (recordOffsetInFrame u + fa))))"
    unfolding Fa_def using fit by (intro length_overwrite) simp
  have fua: "fileData ua = Fa" "positionInRecord ua = fa" "furthestPositionInRecord ua = fa"
      "frameOffsetInFile ua = frameOffsetInFile u" "recordOffsetInFrame ua = recordOffsetInFrame u"
      "access ua = access u" "swapEndianness ua = swapEndianness u"
    by (simp_all add: ua)
  define n' where "n' = nat (frameOffsetInFile ua + recordOffsetInFrame ua + positionInRecord ua)"
  have n': "n' = n + length d"
    using Cons.prems(3-5) by (simp add: n'_def n_def fua fa_def nat_add_distrib)
  have n'len: "n' \<le> length (fileData ua)"
    using fit by (simp add: n' fua lenFa)
  from Cons.IH [OF rest [unfolded ha]] Cons.prems(2-5) fua
  have ih: "h1 = h" "agree ua u1"
      "positionInRecord u1 = fa + int (length (concat (map fst cs)))"
      "furthestPositionInRecord u1 = positionInRecord u1"
      "take (length (concat (map fst cs))) (drop n' (fileData u1))
         = concat (map (stored (swapEndianness u)) cs)"
      "take n' (fileData u1) = take n' Fa"
    using n'len by (simp_all add: fa_def n'_def)
  have d1: "take (length d) (drop n (fileData u1)) = stored (swapEndianness u) (d, e)"
  proof -
    have "take (length d) (drop n (fileData u1)) = take (length d) (drop n Fa)"
      using ih(6) by (intro take_drop_prefix [of n "length d" n']) (simp_all add: n')
    also have "\<dots> = stored (swapEndianness u) (d, e)"
      unfolding Fa_def using fit take_drop_overwrite [of n "stored (swapEndianness u) (d, e)"]
      by simp
    finally show ?thesis .
  qed
  have seg: "take (length d + length (concat (map fst cs))) (drop n (fileData u1))
      = stored (swapEndianness u) (d, e) @ concat (map (stored (swapEndianness u)) cs)"
    using d1 ih(5) by (simp add: take_add n' add.commute)
  have pre: "take n (fileData u1) = take n (fileData u)" if "n \<le> length (fileData u)"
  proof -
    have "take n (fileData u1) = take n Fa"
      using ih(6) by (intro take_prefix [of n n']) (simp_all add: n')
    also have "\<dots> = take n (extend (fileData u)
                 (nat (frameOffsetInFile u + (recordOffsetInFrame u + fa))))"
      unfolding Fa_def using fit by (intro take_overwrite_before) simp_all
    also have "\<dots> = take n (fileData u)" using that by (rule take_extend)
    finally show ?thesis .
  qed
  show ?case
    using ih(1-4) agree_trans [OF ag ih(2)] seg pre
    by (simp add: c n_def [symmetric] fa_def)
qed

lemma AdvanceRecord_commit_cases:
  "AdvanceRecord_commit ok u h =
     (if IsAfterEndfile u then Some (False, u\<lparr>leftTabLimit := None\<rparr>, h)
      else Some (ok,
        (if access u \<noteq> Direct
         then (CommitWrites (u\<lparr>leftTabLimit := None\<rparr>))
                \<lparr>currentRecordNumber := int64_of_int (currentRecordNumber u + 1),
                 impliedEndfile := IsRecordFile u,
                 endfileRecordNumber :=
                   (case endfileRecordNumber u of
                      Some n \<Rightarrow> if int64_of_int (currentRecordNumber u + 1) \<ge> n then None else Some n
                    | None \<Rightarrow> None)\<rparr>
         else (CommitWrites (u\<lparr>leftTabLimit := None\<rparr>))
                \<lparr>currentRecordNumber := int64_of_int (currentRecordNumber u + 1)\<rparr>), h))"
  by (cases u; cases "endfileRecordNumber u")
     (auto simp: AdvanceRecord_commit_def Let_def IsAfterEndfile_def CommitWrites_def
        BeginRecord_def IsRecordFile_def IsAtEOF_def)

lemma AdvanceRecord_unformatted_unfold:
  assumes "direction u \<noteq> Input" and "access u = Sequential" and "isUnformatted u = Some True"
  shows "AdvanceRecord u h =
     (case Emit (word_bytes (isHostLittleEndian u) (word_of_int (furthestPositionInRecord u - 4)))
             4 4 (u\<lparr>positionInRecord := furthestPositionInRecord u\<rparr>) h of
        None \<Rightarrow> None
      | Some (ok, ua, ha) \<Rightarrow>
          (case (if ok
                 then Emit (word_bytes (isHostLittleEndian u)
                              (word_of_int (furthestPositionInRecord u - 4)))
                        4 4 (ua\<lparr>positionInRecord := 0\<rparr>) ha
                 else Some (False, ua\<lparr>positionInRecord := 0\<rparr>, ha)) of
             None \<Rightarrow> None
           | Some (ok2, ub, hb) \<Rightarrow> AdvanceRecord_commit ok2 ub hb))"
  using assms
  by (simp add: AdvanceRecord_def Let_def split: option.splits prod.splits)

lemma length_word_bytes [simp]: "length (word_bytes little w) = 4"
  by (simp add: word_bytes_def Let_def)

lemma extend_id: "n \<le> length f \<Longrightarrow> extend f n = f"
  by (simp add: extend_def)

lemma IsAfterEndfile_cong:
  "endfileRecordNumber v = endfileRecordNumber u \<Longrightarrow>
   currentRecordNumber v = currentRecordNumber u \<Longrightarrow> IsAfterEndfile v = IsAfterEndfile u"
  by (simp add: IsAfterEndfile_def cong: option.case_cong)

lemma AdvanceRecord_unformatted:
  assumes adv: "AdvanceRecord u h = Some (True, u2, h2)"
    and "direction u \<noteq> Input" and "access u = Sequential" and "isUnformatted u = Some True"
    and "0 \<le> frameOffsetInFile u" and "0 \<le> recordOffsetInFrame u"
    and "0 \<le> furthestPositionInRecord u"
  shows "h2 = h \<and> \<not> IsAfterEndfile u \<and>
     u2 = u\<lparr>positionInRecord := 0, furthestPositionInRecord := 0, unterminatedRecord := False,
            recordLength := None,
            beganReadingRecord := (beganReadingRecord u \<and> recordLength u = None),
            frameAt := frameOffsetInFile u,
            frameLength := recordOffsetInFrame u + (furthestPositionInRecord u + 4),
            fileData :=
              overwrite
                (overwrite
                   (extend (fileData u)
                      (nat (frameOffsetInFile u) + nat (recordOffsetInFrame u) +
                       nat (furthestPositionInRecord u) + 4))
                   (nat (frameOffsetInFile u) + nat (recordOffsetInFrame u) +
                    nat (furthestPositionInRecord u))
                   (stored (swapEndianness u)
                      (word_bytes (isHostLittleEndian u)
                         (word_of_int (furthestPositionInRecord u - 4)), 4)))
                (nat (frameOffsetInFile u) + nat (recordOffsetInFrame u))
                (stored (swapEndianness u)
                   (word_bytes (isHostLittleEndian u)
                      (word_of_int (furthestPositionInRecord u - 4)), 4)),
            leftTabLimit := None,
            frameOffsetInFile :=
              frameOffsetInFile u + (recordOffsetInFrame u + (furthestPositionInRecord u + 4)),
            recordOffsetInFrame := 0,
            currentRecordNumber := int64_of_int (currentRecordNumber u + 1),
            impliedEndfile := True,
            endfileRecordNumber :=
              (case endfileRecordNumber u of
                 Some n \<Rightarrow> if int64_of_int (currentRecordNumber u + 1) \<ge> n then None else Some n
               | None \<Rightarrow> None)\<rparr>"
proof -
  define bytes where "bytes = word_bytes (isHostLittleEndian u)
                         (word_of_int (furthestPositionInRecord u - 4))"
  define lenb where "lenb = stored (swapEndianness u) (bytes, 4)"
  define f where "f = furthestPositionInRecord u"
  define s where "s = nat (frameOffsetInFile u) + nat (recordOffsetInFrame u)"
  define u0 where "u0 = u\<lparr>positionInRecord := furthestPositionInRecord u\<rparr>"
  have lb: "length bytes = 4" by (simp add: bytes_def)
  have llb: "length lenb = 4" by (simp add: lenb_def lb)
  have unf: "AdvanceRecord u h =
     (case Emit bytes (length bytes) 4 u0 h of
        None \<Rightarrow> None
      | Some (ok, ua, ha) \<Rightarrow>
          (case (if ok then Emit bytes (length bytes) 4 (ua\<lparr>positionInRecord := 0\<rparr>) ha
                 else Some (False, ua\<lparr>positionInRecord := 0\<rparr>, ha)) of
             None \<Rightarrow> None
           | Some (ok2, ub, hb) \<Rightarrow> AdvanceRecord_commit ok2 ub hb))"
    unfolding bytes_def u0_def length_word_bytes
    by (rule AdvanceRecord_unformatted_unfold [OF assms(2-4)])
  obtain ok ua ha where e1: "Emit bytes (length bytes) 4 u0 h = Some (ok, ua, ha)"
    using adv unfolding unf by (auto split: option.splits)
  obtain ok2 ub hb where e2: "(if ok then Emit bytes (length bytes) 4 (ua\<lparr>positionInRecord := 0\<rparr>) ha
                 else Some (False, ua\<lparr>positionInRecord := 0\<rparr>, ha)) = Some (ok2, ub, hb)"
    and cm: "AdvanceRecord_commit ok2 ub hb = Some (True, u2, h2)"
    using adv unfolding unf e1 by (auto split: option.splits)
  have ok2: ok2 and ne: "\<not> IsAfterEndfile ub"
    using cm unfolding AdvanceRecord_commit_cases by (auto split: if_splits)
  have ok: ok using e2 ok2 by (auto split: if_splits)
  have e1': "Emit bytes (length bytes) 4 u0 h = Some (True, ua, ha)" using e1 ok by simp
  have e2': "Emit bytes (length bytes) 4 (ua\<lparr>positionInRecord := 0\<rparr>) ha = Some (True, ub, hb)"
    using e2 ok ok2 by simp
  have u0f: "access u0 \<noteq> Direct" "0 \<le> frameOffsetInFile u0" "0 \<le> recordOffsetInFrame u0"
     "0 \<le> positionInRecord u0" "positionInRecord u0 \<le> furthestPositionInRecord u0"
    using assms(3,5-7) by (simp_all add: u0_def)
  define Fa where "Fa = overwrite (extend (fileData u) (s + nat f + 4)) (s + nat f) lenb"
  from Emit_True [OF e1' u0f]
  have ha: "ha = h"
    and ua: "ua = u\<lparr>recordLength := None,
         beganReadingRecord := (beganReadingRecord u \<and> recordLength u = None),
         frameAt := frameOffsetInFile u,
         frameLength := recordOffsetInFrame u + (f + 4),
         fileData := Fa,
         positionInRecord := f + 4,
         furthestPositionInRecord := f + 4\<rparr>"
    using assms(5-7)
    by (simp_all add: u0_def lb f_def Fa_def s_def lenb_def stored_def nat_add_distrib add.assoc)
  define ua' where "ua' = ua\<lparr>positionInRecord := 0\<rparr>"
  have lenFa: "length Fa = max (length (fileData u)) (s + nat f + 4)"
    unfolding Fa_def by (subst length_overwrite) (simp_all add: length_extend llb)
  have ua'f: "access ua' \<noteq> Direct" "0 \<le> frameOffsetInFile ua'" "0 \<le> recordOffsetInFrame ua'"
     "0 \<le> positionInRecord ua'" "positionInRecord ua' \<le> furthestPositionInRecord ua'"
    using assms(3,5-7) by (simp_all add: ua'_def ua f_def)
  have ext: "extend Fa (s + nat f + 4) = Fa"
    by (rule extend_id) (simp add: lenFa)
  from Emit_True [OF e2' [folded ua'_def] ua'f]
  have hb: "hb = h"
    and ub: "ub = u\<lparr>recordLength := None,
         beganReadingRecord := (beganReadingRecord u \<and> recordLength u = None),
         frameAt := frameOffsetInFile u,
         frameLength := recordOffsetInFrame u + (f + 4),
         fileData := overwrite Fa s lenb,
         positionInRecord := 4,
         furthestPositionInRecord := f + 4\<rparr>"
    using assms(5-7) ext
    by (simp_all add: ua'_def ua lb ha s_def lenb_def stored_def nat_add_distrib add.assoc f_def)
  have "IsAfterEndfile ub = IsAfterEndfile u"
    by (rule IsAfterEndfile_cong) (simp_all add: ub)
  then have ne': "\<not> IsAfterEndfile u" using ne by simp
  have "Some (True, u2, h2) = AdvanceRecord_commit True ub h" using cm ok2 hb by simp
  then show ?thesis
    unfolding AdvanceRecord_commit_cases
    using ne ne' assms(3)
    by (simp add: ub CommitWrites_def BeginRecord_def value_or_def IsRecordFile_def
          Fa_def s_def f_def lenb_def bytes_def cong: option.case_cong)
qed

lemma take_drop_extend_full:
  "length (take k (drop n f)) = k \<Longrightarrow> take k (drop n (extend f m)) = take k (drop n f)"
  by (auto simp: extend_def min_def split: if_splits)

lemma record_layout:
  assumes "s + 4 + P + 4 \<le> length G" and "length hdr = 4" and "length ftr = 4"
  shows "take (P + 8) (drop s (overwrite (overwrite G (s + 4 + P) ftr) s hdr))
           = hdr @ take P (drop (s + 4) G) @ ftr"
proof -
  define G1 where "G1 = overwrite G (s + 4 + P) ftr"
  have l1: "length G1 = length G"
    unfolding G1_def using assms by (intro length_overwrite) simp
  have a: "take 4 (drop s (overwrite G1 s hdr)) = hdr"
    using take_drop_overwrite [of s hdr G1] assms l1 by simp
  have b: "drop (s + 4) (overwrite G1 s hdr) = drop (s + 4) G1"
    using assms l1 by (simp add: overwrite_def)
  have c: "take (s + 4 + P) G1 = take (s + 4 + P) G"
    unfolding G1_def using assms by (intro take_overwrite_before) simp_all
  have d: "take P (drop (s + 4) G1) = take P (drop (s + 4) G)"
    using c by (intro take_drop_prefix [of "s + 4" P "s + 4 + P"]) simp_all
  have e: "take 4 (drop (s + 4 + P) G1) = ftr"
    unfolding G1_def using take_drop_overwrite [of "s + 4 + P" ftr G] assms by simp
  have t1: "\<And>X. take (4 + (P + 4)) (drop s X) = take 4 (drop s X) @ take (P + 4) (drop (4 + s) X)"
    by (simp only: take_add drop_drop)
  have t2: "\<And>X. take (P + 4) (drop (s + 4) X) = take P (drop (s + 4) X) @ take 4 (drop (P + (s + 4)) X)"
    by (simp only: take_add drop_drop)
  have p8: "P + 8 = 4 + (P + 4)" "4 + s = s + 4" "P + (s + 4) = s + 4 + P" by simp_all
  have "take (P + 8) (drop s (overwrite G1 s hdr))
      = take 4 (drop s (overwrite G1 s hdr)) @ take (P + 4) (drop (s + 4) (overwrite G1 s hdr))"
    unfolding p8(1) t1 p8(2) ..
  also have "\<dots> = hdr @ take (P + 4) (drop (s + 4) G1)" unfolding a b ..
  also have "\<dots> = hdr @ take P (drop (s + 4) G1) @ take 4 (drop (s + 4 + P) G1)"
    unfolding t2 p8(3) ..
  also have "\<dots> = hdr @ take P (drop (s + 4) G) @ ftr" unfolding d e ..
  finally show ?thesis unfolding G1_def .
qed

lemma bytes_word_word_bytes: "bytes_word little (word_bytes little w) = w"
proof (rule bit_word_eqI)
  fix n assume n: "n < LENGTH(32)"
  consider "n < 8" | "8 \<le> n \<and> n < 16" | "16 \<le> n \<and> n < 24" | "24 \<le> n" by linarith
  then show "bit (bytes_word little (word_bytes little w)) n = bit w n"
    using n by cases (auto simp: bytes_word_def word_bytes_def Let_def bit_simps)
qed

lemma SwapEndianness_4:
  "SwapEndianness [a, b, c, d] 4 4 = [d, c, b, a]"
  by (simp add: SwapEndianness_def SwapEndianness_elements.simps SwapEndianness_element.simps
        std_swap_def)

lemma word_bytes_list:
  "\<exists>a b c d. word_bytes little w = [a, b, c, d]"
  by (simp add: word_bytes_def Let_def)

lemma unswap_stored_word:
  "bytes_word little
     (if swap then SwapEndianness (stored swap (word_bytes little w, 4)) 4 4
      else stored swap (word_bytes little w, 4)) = w"
proof -
  obtain a b c d where l: "word_bytes little w = [a, b, c, d]"
    using word_bytes_list by blast
  have "(if swap then SwapEndianness (stored swap (word_bytes little w, 4)) 4 4
      else stored swap (word_bytes little w, 4)) = word_bytes little w"
    unfolding stored_def fst_conv snd_conv length_word_bytes
    by (simp add: l SwapEndianness_4)
  then show ?thesis by (simp add: bytes_word_word_bytes)
qed

lemma ReadFrame_snd:
  "snd (ReadFrame at need u) = u\<lparr>frameAt := at, frameLength := fst (ReadFrame at need u)\<rparr>"
  by (simp add: ReadFrame_def Let_def)

lemma ReadFrame_fst:
  "0 \<le> at \<Longrightarrow> fst (ReadFrame at need u) =
     max 0 (min (need + int (readAhead u)) (int (length (fileData u)) - at))"
  by (simp add: ReadFrame_def Let_def)

lemma ReadFrame_window:
  "0 \<le> at \<Longrightarrow> nat at + nat (fst (ReadFrame at need u)) \<le> length (fileData u)
     \<or> fst (ReadFrame at need u) = 0"
  by (auto simp: ReadFrame_fst)

lemma ReadFrame_enough:
  "0 \<le> at \<Longrightarrow> at + need \<le> int (length (fileData u)) \<Longrightarrow> need \<le> fst (ReadFrame at need u)"
  by (auto simp: ReadFrame_fst)

lemma ReadFrame_short:
  "0 \<le> at \<Longrightarrow> 0 < need \<Longrightarrow> int (length (fileData u)) < at + need \<Longrightarrow>
   fst (ReadFrame at need u) < need"
  by (auto simp: ReadFrame_fst)

lemma length_FrameContents_ReadFrame:
  "0 \<le> at \<Longrightarrow> length (FrameContents (snd (ReadFrame at need u))) =
      nat (fst (ReadFrame at need u))"
  by (auto simp: ReadFrame_snd FrameContents_def ReadFrame_fst)

lemma take_drop_take:
  "o1 + n \<le> g \<Longrightarrow> take n (drop o1 (take g X)) = take n (drop o1 X)"
proof -
  assume a: "o1 + n \<le> g"
  have m: "min n (g - o1) = n" using a by simp
  show ?thesis by (simp only: drop_take take_take m)
qed

lemma FrameBytes_ReadFrame:
  assumes "0 \<le> at" and "0 \<le> off" and "off + int n \<le> fst (ReadFrame at need u)"
  shows "FrameBytes (snd (ReadFrame at need u)) off n =
           Some (take n (drop (nat at + nat off) (fileData u)))"
proof -
  let ?u = "snd (ReadFrame at need u)"
  let ?g = "fst (ReadFrame at need u)"
  have len: "length (FrameContents ?u) = nat ?g"
    by (rule length_FrameContents_ReadFrame [OF assms(1)])
  have fit: "nat off + n \<le> nat ?g" using assms(2,3) by linarith
  have fc: "FrameContents ?u = take (nat ?g) (drop (nat at) (fileData u))"
    by (simp add: ReadFrame_snd FrameContents_def)
  have "take n (drop (nat off) (FrameContents ?u)) =
        take n (drop (nat off) (drop (nat at) (fileData u)))"
    unfolding fc using fit by (rule take_drop_take)
  also have "\<dots> = take n (drop (nat at + nat off) (fileData u))"
    by (simp add: add.commute)
  finally show ?thesis using assms(2) fit len by (simp add: FrameBytes_def)
qed

lemma ReadHeaderOrFooter_ReadFrame:
  assumes "0 \<le> at" and "0 \<le> off" and "off + 4 \<le> fst (ReadFrame at need u)"
    and "take 4 (drop (nat at + nat off) (fileData u)) =
           stored (swapEndianness u) (word_bytes (isHostLittleEndian u) w, 4)"
  shows "ReadHeaderOrFooter (snd (ReadFrame at need u)) off = Some w"
proof -
  have fb: "FrameBytes (snd (ReadFrame at need u)) off 4 =
      Some (stored (swapEndianness u) (word_bytes (isHostLittleEndian u) w, 4))"
    using FrameBytes_ReadFrame [OF assms(1,2), of 4 need u] assms(3,4) by simp
  show ?thesis
    unfolding ReadHeaderOrFooter_def fb
    using unswap_stored_word [of "isHostLittleEndian u" "swapEndianness u" w]
    by (simp add: ReadFrame_snd)
qed

lemma size_t_of_int_small: "0 \<le> x \<Longrightarrow> x < 2 ^ 64 \<Longrightarrow> size_t_of_int x = x"
  by (simp add: size_t_of_int_def)

lemma BeginSequential_ok:
  assumes fo: "0 \<le> frameOffsetInFile r" and rec: "0 \<le> recordOffsetInFrame r"
    and small: "recordOffsetInFrame r < 2 ^ 63"
    and w: "0 \<le> sint w"
    and hdr: "take 4 (drop (nat (frameOffsetInFile r) + nat (recordOffsetInFrame r)) (fileData r))
              = stored (swapEndianness r) (word_bytes (isHostLittleEndian r) w, 4)"
    and ftr: "take 4 (drop (nat (frameOffsetInFile r) + nat (recordOffsetInFrame r + (4 + sint w)))
                 (fileData r))
              = stored (swapEndianness r) (word_bytes (isHostLittleEndian r) w, 4)"
    and len: "frameOffsetInFile r + (recordOffsetInFrame r + (4 + sint w) + 4)
                \<le> int (length (fileData r))"
  shows "BeginSequentialVariableUnformattedInputRecord r h =
     Some (r\<lparr>frameAt := frameOffsetInFile r,
             frameLength := fst (ReadFrame (frameOffsetInFile r)
                                  (recordOffsetInFrame r + (4 + sint w) + 4) r),
             recordLength := Some (4 + sint w), positionInRecord := 4\<rparr>, h)"
proof -
  let ?fo = "frameOffsetInFile r" and ?rec = "recordOffsetInFrame r"
  define r1 where "r1 = snd (ReadFrame ?fo (?rec + 4) r)"
  define g1 where "g1 = fst (ReadFrame ?fo (?rec + 4) r)"
  have g1: "?rec + 4 \<le> g1"
    unfolding g1_def using fo len w by (intro ReadFrame_enough) auto
  have h1: "ReadHeaderOrFooter r1 ?rec = Some w"
    unfolding r1_def using g1 hdr by (intro ReadHeaderOrFooter_ReadFrame [OF fo rec]) (simp_all add: g1_def)
  have r1: "r1 = r\<lparr>frameAt := ?fo, frameLength := g1\<rparr>"
    by (simp add: r1_def g1_def ReadFrame_snd)
  define r2 where "r2 = r1\<lparr>recordLength := Some (4 + sint w)\<rparr>"
  have sw: "sint w < 2 ^ 31" using sint_lt [of w] by simp
  have need2: "size_t_of_int (?rec + (4 + sint w) + 4) = ?rec + (4 + sint w) + 4"
    using rec small w sw by (intro size_t_of_int_small) auto
  define r3 where "r3 = snd (ReadFrame ?fo (?rec + (4 + sint w) + 4) r2)"
  define g3 where "g3 = fst (ReadFrame ?fo (?rec + (4 + sint w) + 4) r2)"
  have r2f: "fileData r2 = fileData r" "readAhead r2 = readAhead r"
     "swapEndianness r2 = swapEndianness r" "isHostLittleEndian r2 = isHostLittleEndian r"
     "frameOffsetInFile r2 = ?fo" "recordOffsetInFrame r2 = ?rec"
    by (simp_all add: r2_def r1)
  have g3: "?rec + (4 + sint w) + 4 \<le> g3"
    unfolding g3_def using fo len by (intro ReadFrame_enough) (auto simp: r2f)
  have g3': "g3 = fst (ReadFrame ?fo (?rec + (4 + sint w) + 4) r)"
    using fo by (simp add: g3_def ReadFrame_fst r2f)
  have h3: "ReadHeaderOrFooter r3 (?rec + (4 + sint w)) = Some w"
    unfolding r3_def using g3 ftr rec w
    by (intro ReadHeaderOrFooter_ReadFrame [OF fo]) (simp_all add: g3_def r2f)
  have r3: "r3 = r\<lparr>frameAt := ?fo, frameLength := g3, recordLength := Some (4 + sint w)\<rparr>"
    by (simp add: r3_def g3_def ReadFrame_snd r2_def r1)
  have r1f: "recordOffsetInFrame r1 = ?rec" "frameOffsetInFile r1 = ?fo"
    by (simp_all add: r1)
  have ng1: "\<not> g1 < ?rec + 4" using g1 by simp
  have ng3: "\<not> g3 < ?rec + (4 + sint w) + 4" using g3 by simp
  have r3f: "recordOffsetInFrame r3 = ?rec" by (simp add: r3)
  show ?thesis
    unfolding BeginSequentialVariableUnformattedInputRecord_def Let_def case_prod_beta
    apply (simp only: r1_def [symmetric] g1_def [symmetric] ng1 if_False r1f h1
             Option.bind.bind_lunit r2_def [symmetric] r2f need2
             r3_def [symmetric] g3_def [symmetric] ng3 r3f h3)
    apply (simp add: r3 g3')
    done
qed

lemma IsAtEOF_cong:
  "endfileRecordNumber v = endfileRecordNumber u \<Longrightarrow>
   currentRecordNumber v = currentRecordNumber u \<Longrightarrow> IsAtEOF v = IsAtEOF u"
  by (simp add: IsAtEOF_def cong: option.case_cong)

lemma BeginReadingRecord_ok:
  assumes "direction r = Input" and "\<not> beganReadingRecord r" and "access r = Sequential"
    and "isUnformatted r = Some True" and "\<not> IsAtEOF r"
    and fo: "0 \<le> frameOffsetInFile r" and rec: "0 \<le> recordOffsetInFrame r"
    and small: "recordOffsetInFrame r < 2 ^ 63"
    and w: "0 \<le> sint w"
    and hdr: "take 4 (drop (nat (frameOffsetInFile r) + nat (recordOffsetInFrame r)) (fileData r))
              = stored (swapEndianness r) (word_bytes (isHostLittleEndian r) w, 4)"
    and ftr: "take 4 (drop (nat (frameOffsetInFile r) + nat (recordOffsetInFrame r + (4 + sint w)))
                 (fileData r))
              = stored (swapEndianness r) (word_bytes (isHostLittleEndian r) w, 4)"
    and len: "frameOffsetInFile r + (recordOffsetInFrame r + (4 + sint w) + 4)
                \<le> int (length (fileData r))"
  shows "BeginReadingRecord r h =
     Some (\<not> InError h,
           r\<lparr>beganReadingRecord := True, frameAt := frameOffsetInFile r,
             frameLength := fst (ReadFrame (frameOffsetInFile r)
                                  (recordOffsetInFrame r + (4 + sint w) + 4) r),
             recordLength := Some (4 + sint w), positionInRecord := 4\<rparr>, h)"
proof -
  define u where "u = r\<lparr>beganReadingRecord := True, recordLength := None\<rparr>"
  have uf: "frameOffsetInFile u = frameOffsetInFile r" "recordOffsetInFrame u = recordOffsetInFrame r"
     "fileData u = fileData r" "swapEndianness u = swapEndianness r"
     "isHostLittleEndian u = isHostLittleEndian r" "readAhead u = readAhead r"
    by (simp_all add: u_def)
  have eof: "\<not> IsAtEOF u"
    using assms(5) IsAtEOF_cong [of u r] by (simp add: u_def)
  have "BeginSequentialVariableUnformattedInputRecord u h =
     Some (u\<lparr>frameAt := frameOffsetInFile u,
             frameLength := fst (ReadFrame (frameOffsetInFile u)
                                  (recordOffsetInFrame u + (4 + sint w) + 4) u),
             recordLength := Some (4 + sint w), positionInRecord := 4\<rparr>, h)"
    using fo rec small w hdr ftr len by (intro BeginSequential_ok) (simp_all add: uf)
  moreover have "fst (ReadFrame (frameOffsetInFile u) (recordOffsetInFrame u + (4 + sint w) + 4) u)
      = fst (ReadFrame (frameOffsetInFile r) (recordOffsetInFrame r + (4 + sint w) + 4) r)"
    using fo by (simp add: ReadFrame_fst uf)
  ultimately have b: "BeginSequentialVariableUnformattedInputRecord u h =
     Some (r\<lparr>beganReadingRecord := True, frameAt := frameOffsetInFile r,
             frameLength := fst (ReadFrame (frameOffsetInFile r)
                                  (recordOffsetInFrame r + (4 + sint w) + 4) r),
             recordLength := Some (4 + sint w), positionInRecord := 4\<rparr>, h)"
    by (simp add: u_def)
  show ?thesis
    unfolding BeginReadingRecord_def Let_def
    using assms(1-4) eof [unfolded u_def]
    by (simp add: b [unfolded u_def])
qed

lemma Receive_ok:
  assumes "direction r = Input" and "recordLength r = Some rl"
    and fo: "0 \<le> frameOffsetInFile r" and rec: "0 \<le> recordOffsetInFrame r"
    and pos: "0 \<le> positionInRecord r" and fur: "furthestPositionInRecord r \<le> positionInRecord r"
    and "positionInRecord r + int n \<le> rl"
    and len: "frameOffsetInFile r + (recordOffsetInFrame r + (positionInRecord r + int n))
                \<le> int (length (fileData r))"
    and "length data = n"
  shows "Receive data n eb r h =
     Some (True,
           (if swapEndianness r
            then SwapEndianness
                   (take n (drop (nat (frameOffsetInFile r) + nat (recordOffsetInFrame r)
                                  + nat (positionInRecord r)) (fileData r))) n eb
            else take n (drop (nat (frameOffsetInFile r) + nat (recordOffsetInFrame r)
                                  + nat (positionInRecord r)) (fileData r))),
           r\<lparr>frameAt := frameOffsetInFile r,
             frameLength := fst (ReadFrame (frameOffsetInFile r)
                 (recordOffsetInFrame r + (positionInRecord r + int n)) r),
             positionInRecord := positionInRecord r + int n,
             furthestPositionInRecord := positionInRecord r + int n\<rparr>, h)"
proof -
  let ?fo = "frameOffsetInFile r" and ?rec = "recordOffsetInFrame r"
  let ?pos = "positionInRecord r"
  define fa where "fa = max (furthestPositionInRecord r) (?pos + int n)"
  have fa: "fa = ?pos + int n" using fur by (simp add: fa_def)
  define r1 where "r1 = snd (ReadFrame ?fo (?rec + fa) r)"
  define g1 where "g1 = fst (ReadFrame ?fo (?rec + fa) r)"
  have g1: "?rec + fa \<le> g1"
    unfolding g1_def using fo len by (intro ReadFrame_enough) (auto simp: fa)
  have r1: "r1 = r\<lparr>frameAt := ?fo, frameLength := g1\<rparr>"
    by (simp add: r1_def g1_def ReadFrame_snd)
  have fb: "FrameBytes r1 (?rec + ?pos) n =
      Some (take n (drop (nat ?fo + nat (?rec + ?pos)) (fileData r)))"
    unfolding r1_def using g1 rec pos
    by (intro FrameBytes_ReadFrame [OF fo]) (simp_all add: g1_def fa)
  have no: "\<not> fa > value_or (recordLength r) fa"
    using assms(2,7) by (simp add: value_or_def fa)
  have ng: "g1 \<ge> ?rec + fa" using g1 .
  have r1f: "recordOffsetInFrame r1 = ?rec" "positionInRecord r1 = ?pos"
     "swapEndianness r1 = swapEndianness r"
    by (simp_all add: r1)
  have ln: "n \<le> length data" "drop n data = []" using assms(9) by simp_all
  show ?thesis
    unfolding Receive_def Let_def case_prod_beta fa_def [symmetric]
    apply (simp only: assms(1) no if_False not_False_eq_True simp_thms
             r1_def [symmetric] g1_def [symmetric] ng if_True r1f fb
             Option.bind.bind_lunit ln append_Nil2)
    using rec pos
    apply (simp add: r1 fa nat_add_distrib add.assoc g1_def)
    done
qed

lemma SwapEndianness_nth:
  "bytes \<le> length d \<Longrightarrow> i < length d \<Longrightarrow>
   SwapEndianness d bytes e ! i =
     (if 1 < e \<and> i < bytes div e * e then d ! (i div e * e + (e - 1 - i mod e)) else d ! i)"
  by (simp add: SwapEndianness_def nth_elements)

lemma flip_facts:
  assumes "0 < (e::nat)"
  shows "(i div e * e + (e - 1 - i mod e)) div e = i div e"
    and "(i div e * e + (e - 1 - i mod e)) mod e = e - 1 - i mod e"
  using assms by simp_all

lemma lt_multiple_iff: "0 < (e::nat) \<Longrightarrow> i < q * e \<longleftrightarrow> i div e < q"
  by (simp add: less_mult_imp_div_less div_less_iff_less_mult)

lemma SwapEndianness_involution:
  assumes "bytes \<le> length d"
  shows "SwapEndianness (SwapEndianness d bytes e) bytes e = d"
proof (cases "1 < e")
  case False
  then show ?thesis by (simp add: SwapEndianness_def)
next
  case True
  then have e0: "0 < e" by simp
  let ?S = "SwapEndianness d bytes e"
  let ?n = "bytes div e * e"
  have n: "?n \<le> bytes" by simp
  show ?thesis
  proof (rule nth_equalityI)
    show "length (SwapEndianness ?S bytes e) = length d" by simp
  next
    fix i assume "i < length (SwapEndianness ?S bytes e)"
    then have i: "i < length d" by simp
    define m where "m = i div e * e + (e - 1 - i mod e)"
    have md: "m div e = i div e" and mm: "m mod e = e - 1 - i mod e"
      unfolding m_def using flip_facts [OF e0] by blast+
    show "SwapEndianness ?S bytes e ! i = d ! i"
    proof (cases "i < ?n")
      case False
      then show ?thesis using assms i True by (simp add: SwapEndianness_nth)
    next
      case lt: True
      then have "i div e < bytes div e" using lt_multiple_iff [OF e0] by blast
      then have "m div e < bytes div e" using md by simp
      then have mn: "m < ?n" using lt_multiple_iff [OF e0] by blast
      then have ml: "m < length d" using n assms by linarith
      have "i mod e < e" using e0 by simp
      then have "e - 1 - (e - 1 - i mod e) = i mod e" by linarith
      then have inv: "m div e * e + (e - 1 - m mod e) = i"
        unfolding md mm by simp
      have "SwapEndianness ?S bytes e ! i = ?S ! m"
        using assms i True lt by (simp add: SwapEndianness_nth m_def)
      also have "\<dots> = d ! (m div e * e + (e - 1 - m mod e))"
        using assms ml True mn by (simp add: SwapEndianness_nth)
      finally show ?thesis using inv by simp
    qed
  qed
qed

lemma unswap_stored:
  "(if swap then SwapEndianness (stored swap (d, e)) (length d) e else stored swap (d, e)) = d"
  by (simp add: stored_def SwapEndianness_involution)

lemma Receive_all_ok:
  assumes "direction r = Input" and "recordLength r = Some rl"
    and "0 \<le> frameOffsetInFile r" and "0 \<le> recordOffsetInFrame r"
    and "0 \<le> positionInRecord r" and "furthestPositionInRecord r \<le> positionInRecord r"
    and "positionInRecord r + int (length (concat (map fst chunks))) \<le> rl"
    and "frameOffsetInFile r + (recordOffsetInFrame r +
           (positionInRecord r + int (length (concat (map fst chunks)))))
                \<le> int (length (fileData r))"
    and "take (length (concat (map fst chunks)))
           (drop (nat (frameOffsetInFile r) + nat (recordOffsetInFrame r)
                   + nat (positionInRecord r)) (fileData r))
         = concat (map (stored (swapEndianness r)) chunks)"
  shows "\<exists>r'. Receive_all (map (\<lambda>c. (length (fst c), snd c)) chunks) r h
               = Some (True, map fst chunks, r', h)
           \<and> positionInRecord r' = positionInRecord r + int (length (concat (map fst chunks)))
           \<and> recordLength r' = Some rl"
  using assms
proof (induction chunks arbitrary: r)
  case Nil
  then show ?case by simp
next
  case (Cons c cs)
  obtain d e where c: "c = (d, e)" by (cases c)
  let ?fo = "frameOffsetInFile r" and ?rec = "recordOffsetInFrame r"
  let ?pos = "positionInRecord r"
  define n where "n = length d"
  define P where "P = length (concat (map fst cs))"
  define s where "s = nat ?fo + nat ?rec + nat ?pos"
  have tot: "length (concat (map fst (c # cs))) = n + P" by (simp add: c n_def P_def)
  have seg: "take (n + P) (drop s (fileData r)) =
      stored (swapEndianness r) (d, e) @ concat (map (stored (swapEndianness r)) cs)"
    using Cons.prems(9) unfolding tot s_def by (simp add: c)
  have "take n (take (n + P) (drop s (fileData r))) = stored (swapEndianness r) (d, e)"
    unfolding seg by (simp add: n_def)
  then have seg1: "take n (drop s (fileData r)) = stored (swapEndianness r) (d, e)"
    by simp
  have "drop n (take (n + P) (drop s (fileData r))) = concat (map (stored (swapEndianness r)) cs)"
    unfolding seg by (simp add: n_def)
  then have seg2: "take P (drop (s + n) (fileData r)) = concat (map (stored (swapEndianness r)) cs)"
    by (simp add: drop_take add.commute)
  define r1 where "r1 = r\<lparr>frameAt := ?fo,
             frameLength := fst (ReadFrame ?fo (?rec + (?pos + int n)) r),
             positionInRecord := ?pos + int n,
             furthestPositionInRecord := ?pos + int n\<rparr>"
  have rc: "Receive (replicate n 0) n e r h = Some (True, d, r1, h)"
  proof -
    have "Receive (replicate n 0) n e r h =
     Some (True,
           (if swapEndianness r
            then SwapEndianness (take n (drop s (fileData r))) n e
            else take n (drop s (fileData r))), r1, h)"
      unfolding s_def r1_def
      using Cons.prems(1-8) unfolding tot
      by (intro Receive_ok [where rl = rl]) simp_all
    then show ?thesis
      unfolding n_def seg1 [unfolded n_def] unswap_stored .
  qed
  have r1f: "direction r1 = Input" "recordLength r1 = Some rl" "frameOffsetInFile r1 = ?fo"
     "recordOffsetInFrame r1 = ?rec" "positionInRecord r1 = ?pos + int n"
     "furthestPositionInRecord r1 = ?pos + int n" "fileData r1 = fileData r"
     "swapEndianness r1 = swapEndianness r"
    using Cons.prems(1,2) by (simp_all add: r1_def)
  have s1: "nat ?fo + nat ?rec + nat (?pos + int n) = s + n"
    using Cons.prems(5) by (simp add: s_def nat_add_distrib)
  have "\<exists>r'. Receive_all (map (\<lambda>c. (length (fst c), snd c)) cs) r1 h
               = Some (True, map fst cs, r', h)
           \<and> positionInRecord r' = positionInRecord r1 + int (length (concat (map fst cs)))
           \<and> recordLength r' = Some rl"
    using Cons.prems(3-8) seg2 unfolding tot
    by (intro Cons.IH) (simp_all add: r1f s1 P_def)
  then obtain r' where r': "Receive_all (map (\<lambda>c. (length (fst c), snd c)) cs) r1 h
               = Some (True, map fst cs, r', h)"
     "positionInRecord r' = ?pos + int n + int P" "recordLength r' = Some rl"
    by (auto simp: r1f P_def)
  show ?case
    using rc r' by (simp add: c n_def [symmetric] tot P_def [symmetric]) 
qed

lemma ReadHeaderOrFooter_window:
  assumes "0 \<le> frameAt v" and "0 \<le> off" and "off + 4 \<le> frameLength v"
    and "nat (frameAt v) + nat (frameLength v) \<le> length (fileData v)"
    and "take 4 (drop (nat (frameAt v) + nat off) (fileData v)) =
           stored (swapEndianness v) (word_bytes (isHostLittleEndian v) w, 4)"
  shows "ReadHeaderOrFooter v off = Some w"
proof -
  have "nat off + 4 \<le> nat (frameLength v)" using assms(2,3) by linarith
  from FrameBytes_window [OF assms(1,2) this assms(4)] assms(5)
  have fb: "FrameBytes v off 4 =
      Some (stored (swapEndianness v) (word_bytes (isHostLittleEndian v) w, 4))"
    by simp
  show ?thesis
    unfolding ReadHeaderOrFooter_def fb
    using unswap_stored_word [of "isHostLittleEndian v" "swapEndianness v" w]
    by simp
qed

lemma sint_length_word:
  "P < 2 ^ 31 \<Longrightarrow> sint (word_of_int (int P) :: 32 word) = int P"
proof -
  assume "P < 2 ^ 31"
  then have "int P < 2 ^ 31" by (metis of_nat_less_numeral_power_cancel_iff)
  then have "signed_take_bit 31 (int P) = int P"
    by (simp add: signed_take_bit_int_eq_self_iff)
  then show ?thesis by (simp add: signed_of_nat)
qed

lemma AdvanceRecord_unformatted_writes:
  assumes "direction u \<noteq> Input" and "access u = Sequential" and "isUnformatted u = Some True"
    and "0 \<le> frameOffsetInFile u" and "0 \<le> recordOffsetInFrame u"
    and "0 \<le> furthestPositionInRecord u"
    and nae: "\<not> IsAfterEndfile u" and norecl: "openRecl u = None"
  shows "AdvanceRecord u h = Some (True,
     u\<lparr>positionInRecord := 0, furthestPositionInRecord := 0, unterminatedRecord := False,
            recordLength := None,
            beganReadingRecord := (beganReadingRecord u \<and> recordLength u = None),
            frameAt := frameOffsetInFile u,
            frameLength := recordOffsetInFrame u + (furthestPositionInRecord u + 4),
            fileData :=
              overwrite
                (overwrite
                   (extend (fileData u)
                      (nat (frameOffsetInFile u) + nat (recordOffsetInFrame u) +
                       nat (furthestPositionInRecord u) + 4))
                   (nat (frameOffsetInFile u) + nat (recordOffsetInFrame u) +
                    nat (furthestPositionInRecord u))
                   (stored (swapEndianness u)
                      (word_bytes (isHostLittleEndian u)
                         (word_of_int (furthestPositionInRecord u - 4)), 4)))
                (nat (frameOffsetInFile u) + nat (recordOffsetInFrame u))
                (stored (swapEndianness u)
                   (word_bytes (isHostLittleEndian u)
                      (word_of_int (furthestPositionInRecord u - 4)), 4)),
            leftTabLimit := None,
            frameOffsetInFile :=
              frameOffsetInFile u + (recordOffsetInFrame u + (furthestPositionInRecord u + 4)),
            recordOffsetInFrame := 0,
            currentRecordNumber := int64_of_int (currentRecordNumber u + 1),
            impliedEndfile := True,
            endfileRecordNumber :=
              (case endfileRecordNumber u of
                 Some n \<Rightarrow> if int64_of_int (currentRecordNumber u + 1) \<ge> n then None else Some n
               | None \<Rightarrow> None)\<rparr>, h)"
proof -
  define bytes where "bytes = word_bytes (isHostLittleEndian u)
                         (word_of_int (furthestPositionInRecord u - 4))"
  define lenb where "lenb = stored (swapEndianness u) (bytes, 4)"
  define f where "f = furthestPositionInRecord u"
  define s where "s = nat (frameOffsetInFile u) + nat (recordOffsetInFrame u)"
  define u0 where "u0 = u\<lparr>positionInRecord := furthestPositionInRecord u\<rparr>"
  have lb: "length bytes = 4" by (simp add: bytes_def)
  have llb: "length lenb = 4" by (simp add: lenb_def lb)
  have unf: "AdvanceRecord u h =
     (case Emit bytes (length bytes) 4 u0 h of
        None \<Rightarrow> None
      | Some (ok, ua, ha) \<Rightarrow>
          (case (if ok then Emit bytes (length bytes) 4 (ua\<lparr>positionInRecord := 0\<rparr>) ha
                 else Some (False, ua\<lparr>positionInRecord := 0\<rparr>, ha)) of
             None \<Rightarrow> None
           | Some (ok2, ub, hb) \<Rightarrow> AdvanceRecord_commit ok2 ub hb))"
    unfolding bytes_def u0_def length_word_bytes
    by (rule AdvanceRecord_unformatted_unfold [OF assms(1-3)])
  have u0f: "access u0 \<noteq> Direct" "0 \<le> frameOffsetInFile u0" "0 \<le> recordOffsetInFrame u0"
     "0 \<le> positionInRecord u0" "positionInRecord u0 \<le> furthestPositionInRecord u0"
    using assms(2,4-6) by (simp_all add: u0_def)
  have u0e: "\<not> IsAfterEndfile u0"
    using nae IsAfterEndfile_cong [of u0 u] by (simp add: u0_def)
  have u0r: "\<not> (case openRecl u0 of
              Some recl \<Rightarrow>
                max (furthestPositionInRecord u0) (positionInRecord u0 + int (length bytes)) >
                 (if access u0 = Sequential
                   then (if value_or (isUnformatted u0) False then 2 * 4
                         else (if isWin32 u0 \<and> \<not> isWindowsTextFile u0 then 1 else 0) + 1)
                   else 0) + recl
            | None \<Rightarrow> False)"
    using norecl by (simp add: u0_def)
  define Fa where "Fa = overwrite (extend (fileData u) (s + nat f + 4)) (s + nat f) lenb"
  define ua where "ua = u\<lparr>recordLength := None,
         beganReadingRecord := (beganReadingRecord u \<and> recordLength u = None),
         frameAt := frameOffsetInFile u,
         frameLength := recordOffsetInFrame u + (f + 4),
         fileData := Fa,
         positionInRecord := f + 4,
         furthestPositionInRecord := f + 4\<rparr>"
  have e1: "Emit bytes (length bytes) 4 u0 h = Some (True, ua, h)"
    unfolding Emit_sequential [OF u0f u0e u0r, of 4 h]
    using assms(4-6)
    by (simp add: ua_def u0_def lb f_def Fa_def s_def lenb_def stored_def nat_add_distrib add.assoc)
  define ua' where "ua' = ua\<lparr>positionInRecord := 0\<rparr>"
  have lenFa: "length Fa = max (length (fileData u)) (s + nat f + 4)"
    unfolding Fa_def by (subst length_overwrite) (simp_all add: length_extend llb)
  have ua'f: "access ua' \<noteq> Direct" "0 \<le> frameOffsetInFile ua'" "0 \<le> recordOffsetInFrame ua'"
     "0 \<le> positionInRecord ua'" "positionInRecord ua' \<le> furthestPositionInRecord ua'"
    using assms(2,4-6) by (simp_all add: ua'_def ua_def f_def)
  have ua'e: "\<not> IsAfterEndfile ua'"
    using nae IsAfterEndfile_cong [of ua' u] by (simp add: ua'_def ua_def)
  have ua'r: "\<not> (case openRecl ua' of
              Some recl \<Rightarrow>
                max (furthestPositionInRecord ua') (positionInRecord ua' + int (length bytes)) >
                 (if access ua' = Sequential
                   then (if value_or (isUnformatted ua') False then 2 * 4
                         else (if isWin32 ua' \<and> \<not> isWindowsTextFile ua' then 1 else 0) + 1)
                   else 0) + recl
            | None \<Rightarrow> False)"
    using norecl by (simp add: ua'_def ua_def)
  have ext: "extend Fa (s + nat f + 4) = Fa"
    by (rule extend_id) (simp add: lenFa)
  define ub where "ub = u\<lparr>recordLength := None,
         beganReadingRecord := (beganReadingRecord u \<and> recordLength u = None),
         frameAt := frameOffsetInFile u,
         frameLength := recordOffsetInFrame u + (f + 4),
         fileData := overwrite Fa s lenb,
         positionInRecord := 4,
         furthestPositionInRecord := f + 4\<rparr>"
  have e2: "Emit bytes (length bytes) 4 ua' h = Some (True, ub, h)"
    unfolding Emit_sequential [OF ua'f ua'e ua'r, of 4 h]
    using assms(4-6) ext
    by (simp add: ub_def ua'_def ua_def lb s_def lenb_def stored_def nat_add_distrib add.assoc f_def)
  have ne: "\<not> IsAfterEndfile ub"
    using nae IsAfterEndfile_cong [of ub u] by (simp add: ub_def)
  have "AdvanceRecord u h = AdvanceRecord_commit True ub h"
    unfolding unf e1 using e2 by (simp add: ua'_def)
  then show ?thesis
    unfolding AdvanceRecord_commit_cases
    using ne assms(2)
    by (simp add: ub_def CommitWrites_def BeginRecord_def value_or_def IsRecordFile_def
          Fa_def s_def f_def lenb_def bytes_def cong: option.case_cong)
qed

lemma write_one_chunk:
  "write_record [(data, eb)] unformattedWriter noErrors =
     Some (True,
       unformattedWriter\<lparr>positionInRecord := 0, furthestPositionInRecord := 0,
          frameLength := int (length data) + 8,
          fileData := word_bytes True (word_of_int (int (length data))) @ data
                        @ word_bytes True (word_of_int (int (length data))),
          frameOffsetInFile := int (length data) + 8, currentRecordNumber := 2,
          impliedEndfile := True\<rparr>, noErrors)"
proof -
  let ?u = unformattedWriter
  have uf: "access ?u \<noteq> Direct" "0 \<le> frameOffsetInFile ?u" "0 \<le> recordOffsetInFrame ?u"
    "0 \<le> positionInRecord ?u" "positionInRecord ?u \<le> furthestPositionInRecord ?u"
    "\<not> IsAfterEndfile ?u"
    by (simp_all add: unformattedWriter_def initialUnit_def IsAfterEndfile_def)
  have ur: "\<not> (case openRecl ?u of
              Some recl \<Rightarrow>
                max (furthestPositionInRecord ?u) (positionInRecord ?u + int (length data)) >
                 (if access ?u = Sequential
                   then (if value_or (isUnformatted ?u) False then 2 * 4
                         else (if isWin32 ?u \<and> \<not> isWindowsTextFile ?u then 1 else 0) + 1)
                   else 0) + recl
            | None \<Rightarrow> False)"
    by (simp add: unformattedWriter_def initialUnit_def)
  define u1 where "u1 = ?u\<lparr>frameLength := 4 + int (length data),
       fileData := replicate 4 0 @ data,
       positionInRecord := 4 + int (length data),
       furthestPositionInRecord := 4 + int (length data)\<rparr>"
  have e: "Emit data (length data) eb ?u noErrors = Some (True, u1, noErrors)"
    unfolding Emit_sequential [OF uf ur, of eb noErrors]
    by (simp add: u1_def unformattedWriter_def initialUnit_def extend_def overwrite_def
          max_def)
  have u1f: "direction u1 \<noteq> Input" "access u1 = Sequential" "isUnformatted u1 = Some True"
    "0 \<le> frameOffsetInFile u1" "0 \<le> recordOffsetInFrame u1"
    "0 \<le> furthestPositionInRecord u1" "\<not> IsAfterEndfile u1" "openRecl u1 = None"
    by (simp_all add: u1_def unformattedWriter_def initialUnit_def IsAfterEndfile_def)
  show ?thesis
    unfolding write_record_def Emit_all.simps e
    apply (simp only: option.case prod.case if_True)
    unfolding AdvanceRecord_unformatted_writes [OF u1f, of noErrors]
    by (simp add: u1_def unformattedWriter_def initialUnit_def extend_def overwrite_def
          stored_def int64_of_int_def)
qed

lemma BeginSequential_hit_eof:
  assumes fo: "0 \<le> frameOffsetInFile r" and rec: "0 \<le> recordOffsetInFrame r"
    and hdr: "take 4 (drop (nat (frameOffsetInFile r) + nat (recordOffsetInFrame r)) (fileData r))
              = stored (swapEndianness r) (word_bytes (isHostLittleEndian r) w, 4)"
    and len: "frameOffsetInFile r + (recordOffsetInFrame r + 4) \<le> int (length (fileData r))"
    and short: "int (length (fileData r)) - frameOffsetInFile r
                  < size_t_of_int (recordOffsetInFrame r + (4 + sint w) + 4)"
  shows "\<exists>r' msg. BeginSequentialVariableUnformattedInputRecord r h =
            Some (r', SignalErrorMessage msg h) \<and> recordLength r' = Some (4 + sint w)"
proof -
  let ?fo = "frameOffsetInFile r" and ?rec = "recordOffsetInFrame r"
  define r1 where "r1 = snd (ReadFrame ?fo (?rec + 4) r)"
  define g1 where "g1 = fst (ReadFrame ?fo (?rec + 4) r)"
  have g1: "?rec + 4 \<le> g1"
    unfolding g1_def using fo len by (intro ReadFrame_enough) auto
  have h1: "ReadHeaderOrFooter r1 ?rec = Some w"
    unfolding r1_def using g1 hdr by (intro ReadHeaderOrFooter_ReadFrame [OF fo rec]) (simp_all add: g1_def)
  have r1: "r1 = r\<lparr>frameAt := ?fo, frameLength := g1\<rparr>"
    by (simp add: r1_def g1_def ReadFrame_snd)
  define r2 where "r2 = r1\<lparr>recordLength := Some (4 + sint w)\<rparr>"
  define need where "need = size_t_of_int (?rec + (4 + sint w) + 4)"
  define r3 where "r3 = snd (ReadFrame ?fo need r2)"
  define g3 where "g3 = fst (ReadFrame ?fo need r2)"
  have r2f: "fileData r2 = fileData r" "readAhead r2 = readAhead r"
     "frameOffsetInFile r2 = ?fo" "recordOffsetInFrame r2 = ?rec"
    by (simp_all add: r2_def r1)
  have g3: "g3 < need"
    using fo short len rec by (auto simp: g3_def ReadFrame_fst r2f need_def)
  have r3: "r3 = r\<lparr>frameAt := ?fo, frameLength := g3, recordLength := Some (4 + sint w)\<rparr>"
    by (simp add: r3_def g3_def ReadFrame_snd r2_def r1)
  have r1f: "recordOffsetInFrame r1 = ?rec" "frameOffsetInFile r1 = ?fo"
    by (simp_all add: r1)
  have ng1: "\<not> g1 < ?rec + 4" using g1 by simp
  show ?thesis
    unfolding BeginSequentialVariableUnformattedInputRecord_def Let_def case_prod_beta
    apply (simp only: r1_def [symmetric] g1_def [symmetric] ng1 if_False r1f h1
             Option.bind.bind_lunit r2_def [symmetric] r2f need_def [symmetric]
             r3_def [symmetric] g3_def [symmetric] g3 if_True)
    apply (simp add: r3)
    apply (rule exI)
    apply (rule refl)
    done
qed

lemma BeginReadingRecord_hit_eof:
  assumes "direction r = Input" and "\<not> beganReadingRecord r" and "access r = Sequential"
    and "isUnformatted r = Some True" and "\<not> IsAtEOF r"
    and fo: "0 \<le> frameOffsetInFile r" and rec: "0 \<le> recordOffsetInFrame r"
    and hdr: "take 4 (drop (nat (frameOffsetInFile r) + nat (recordOffsetInFrame r)) (fileData r))
              = stored (swapEndianness r) (word_bytes (isHostLittleEndian r) w, 4)"
    and len: "frameOffsetInFile r + (recordOffsetInFrame r + 4) \<le> int (length (fileData r))"
    and short: "int (length (fileData r)) - frameOffsetInFile r
                  < size_t_of_int (recordOffsetInFrame r + (4 + sint w) + 4)"
  shows "\<exists>r' msg. BeginReadingRecord r h =
            Some (\<not> InError (SignalErrorMessage msg h), r', SignalErrorMessage msg h)
          \<and> recordLength r' = Some (4 + sint w)"
proof -
  define u where "u = r\<lparr>beganReadingRecord := True, recordLength := None\<rparr>"
  have uf: "frameOffsetInFile u = frameOffsetInFile r" "recordOffsetInFrame u = recordOffsetInFrame r"
     "fileData u = fileData r" "swapEndianness u = swapEndianness r"
     "isHostLittleEndian u = isHostLittleEndian r" "readAhead u = readAhead r"
    by (simp_all add: u_def)
  have eof: "\<not> IsAtEOF u"
    using assms(5) IsAtEOF_cong [of u r] by (simp add: u_def)
  have "\<exists>r' msg. BeginSequentialVariableUnformattedInputRecord u h =
            Some (r', SignalErrorMessage msg h) \<and> recordLength r' = Some (4 + sint w)"
    using fo rec hdr len short by (intro BeginSequential_hit_eof) (simp_all add: uf)
  then obtain r' msg where
    b: "BeginSequentialVariableUnformattedInputRecord u h = Some (r', SignalErrorMessage msg h)"
    and rl: "recordLength r' = Some (4 + sint w)" by blast
  have "BeginReadingRecord r h =
          Some (\<not> InError (SignalErrorMessage msg h), r', SignalErrorMessage msg h)"
    unfolding BeginReadingRecord_def Let_def
    using assms(1-4) eof [unfolded u_def] rl
    by (simp add: b [unfolded u_def])
  with rl show ?thesis by blast
qed

lemma InError_SignalErrorMessage: "InError (SignalErrorMessage msg noErrors)"
  by (simp add: InError_def GetIoStat_def SignalErrorMessage_def noErrors_def)

lemma sint_large: "sint (2147483648 :: 32 word) = - (2 ^ 31)"
  by simp

text \<open>
  Claim C1, for payloads of fewer than \<open>2\<^sup>3\<^sup>1\<close> bytes.  A sequential unformatted output
  unit stands at the start of a record with the four header bytes reserved.  When the \<open>Emit\<close>
  calls of a payload of \<open>P\<close> bytes and the \<open>AdvanceRecord\<close> that follows all return true,
  no error is signalled and the file holds, from the start of the record, the length word
  \<open>P\<close>, the payload and the length word \<open>P\<close> again, each in the unit's byte order.  A
  sequential unformatted input unit that stands at the start of that record then begins reading
  it: \<open>BeginReadingRecord\<close> returns true with \<open>recordLength = 4 + P\<close>, header and footer both
  read as \<open>P\<close>, and \<open>Receive\<close>, called with the chunks of the writer, returns the payload.
\<close>

theorem unformatted_sequential_round_trip:
  assumes wr: "write_record chunks u h = Some (True, u2, h2)"
    and P: "P = length (concat (map fst chunks))" and small: "P < 2 ^ 31"
    and wdir: "direction u = Output" and wacc: "access u = Sequential"
    and wunf: "isUnformatted u = Some True"
    and wfo: "0 \<le> frameOffsetInFile u" and wrec: "0 \<le> recordOffsetInFrame u"
    and wpos: "positionInRecord u = 4" and wfur: "furthestPositionInRecord u = 4"
    and rdir: "direction r = Input" and racc: "access r = Sequential"
    and runf: "isUnformatted r = Some True"
    and rbegan: "\<not> beganReadingRecord r" and reof: "\<not> IsAtEOF r"
    and rfur: "furthestPositionInRecord r \<le> 4"
    and rswap: "swapEndianness r = swapEndianness u"
    and rhost: "isHostLittleEndian r = isHostLittleEndian u"
    and rfile: "fileData r = fileData u2"
    and rfo: "0 \<le> frameOffsetInFile r" and rrec: "0 \<le> recordOffsetInFrame r"
    and rrec63: "recordOffsetInFrame r < 2 ^ 63"
    and rstart: "frameOffsetInFile r + recordOffsetInFrame r
                   = frameOffsetInFile u + recordOffsetInFrame u"
    and rh: "\<not> InError rh"
  shows "h2 = h
     \<and> take (P + 8) (drop (nat (frameOffsetInFile u + recordOffsetInFrame u)) (fileData u2))
         = stored (swapEndianness u) (word_bytes (isHostLittleEndian u) (word_of_int (int P)), 4)
           @ concat (map (stored (swapEndianness u)) chunks)
           @ stored (swapEndianness u) (word_bytes (isHostLittleEndian u) (word_of_int (int P)), 4)
     \<and> sint (word_of_int (int P) :: 32 word) = int P
     \<and> (\<exists>r1 r2. BeginReadingRecord r rh = Some (True, r1, rh)
            \<and> recordLength r1 = Some (4 + int P) \<and> positionInRecord r1 = 4
            \<and> ReadHeaderOrFooter r1 (recordOffsetInFrame r) = Some (word_of_int (int P))
            \<and> ReadHeaderOrFooter r1 (recordOffsetInFrame r + (4 + int P))
                 = Some (word_of_int (int P))
            \<and> Receive_all (map (\<lambda>c. (length (fst c), snd c)) chunks) r1 rh
                 = Some (True, map fst chunks, r2, rh))"
proof -
  let ?s = "nat (frameOffsetInFile u + recordOffsetInFrame u)"
  let ?w = "word_of_int (int P) :: 32 word"
  let ?lenb = "stored (swapEndianness u) (word_bytes (isHostLittleEndian u) ?w, 4)"
  let ?pay = "concat (map (stored (swapEndianness u)) chunks)"
  obtain u1 h1 where em: "Emit_all chunks u h = Some (True, u1, h1)"
    and adv: "AdvanceRecord u1 h1 = Some (True, u2, h2)"
    using wr unfolding write_record_def by (auto split: option.splits if_splits)
  have acc: "access u \<noteq> Direct" using wacc by simp
  have pos0: "0 \<le> positionInRecord u" using wpos by simp
  have furpos: "furthestPositionInRecord u = positionInRecord u" using wpos wfur by simp
  from Emit_all_sequential [OF em acc wfo wrec pos0 furpos]
  have h1: "h1 = h" and ag: "agree u u1"
    and pos1: "positionInRecord u1 = 4 + int P"
    and fur1: "furthestPositionInRecord u1 = 4 + int P"
    and seg: "take P (drop (nat (frameOffsetInFile u + recordOffsetInFrame u + 4)) (fileData u1))
                = ?pay"
    using P wpos by simp_all
  note f = agree_fields [OF ag]
  have d1: "direction u1 \<noteq> Input" using f wdir by simp
  have a1: "access u1 = Sequential" using f wacc by simp
  have n1: "isUnformatted u1 = Some True" using f wunf by simp
  have fo1: "0 \<le> frameOffsetInFile u1" using f wfo by simp
  have rec1: "0 \<le> recordOffsetInFrame u1" using f wrec by simp
  have fur0: "0 \<le> furthestPositionInRecord u1" using fur1 by simp
  from AdvanceRecord_unformatted [OF adv d1 a1 n1 fo1 rec1 fur0]
  have h2: "h2 = h1" and u2eq: "fileData u2 =
      overwrite
        (overwrite
           (extend (fileData u1)
              (nat (frameOffsetInFile u1) + nat (recordOffsetInFrame u1) +
               nat (furthestPositionInRecord u1) + 4))
           (nat (frameOffsetInFile u1) + nat (recordOffsetInFrame u1) +
            nat (furthestPositionInRecord u1))
           (stored (swapEndianness u1)
              (word_bytes (isHostLittleEndian u1)
                 (word_of_int (furthestPositionInRecord u1 - 4)), 4)))
        (nat (frameOffsetInFile u1) + nat (recordOffsetInFrame u1))
        (stored (swapEndianness u1)
           (word_bytes (isHostLittleEndian u1)
              (word_of_int (furthestPositionInRecord u1 - 4)), 4))"
    by simp_all
  have s1: "nat (frameOffsetInFile u1) + nat (recordOffsetInFrame u1) = ?s"
    using f wfo wrec by (simp add: nat_add_distrib)
  have s2: "nat (furthestPositionInRecord u1) = 4 + P" using fur1 by simp
  have s3: "furthestPositionInRecord u1 - 4 = int P" using fur1 by simp
  have s0: "nat (frameOffsetInFile u) + nat (recordOffsetInFrame u) = ?s"
    using wfo wrec by (simp add: nat_add_distrib)
  have F2a: "fileData u2 =
      overwrite (overwrite (extend (fileData u1) (?s + (4 + P) + 4)) (?s + (4 + P)) ?lenb)
        ?s ?lenb"
    unfolding u2eq f s2 s3 s0 ..
  have F2: "fileData u2 =
      overwrite (overwrite (extend (fileData u1) (?s + 4 + P + 4)) (?s + 4 + P) ?lenb) ?s ?lenb"
    using F2a by (simp only: add.assoc)
  have s4: "nat (frameOffsetInFile u + recordOffsetInFrame u + 4) = ?s + 4"
    using wfo wrec by simp
  have seg': "take P (drop (?s + 4) (fileData u1)) = ?pay" using seg unfolding s4 .
  have lenpay: "length ?pay = P" unfolding P by (induction chunks) simp_all
  have lenseg: "length (take P (drop (?s + 4) (fileData u1))) = P"
    unfolding seg' by (rule lenpay)
  have lenb4: "length ?lenb = 4" by simp
  have lenG: "?s + 4 + P + 4 \<le> length (extend (fileData u1) (?s + 4 + P + 4))"
    by (simp add: length_extend)
  have layout: "take (P + 8) (drop ?s (fileData u2)) = ?lenb @ ?pay @ ?lenb"
    unfolding F2 record_layout [OF lenG lenb4 lenb4]
      take_drop_extend_full [OF lenseg] seg' ..
  have sw: "sint ?w = int P" using small by (rule sint_length_word)
  let ?X = "drop ?s (fileData u2)"
  have lenX: "P + 8 \<le> length ?X"
    using arg_cong [OF layout, of length] lenpay by simp
  have lenF: "?s + P + 8 \<le> length (fileData u2)" using lenX by simp
  have hdr: "take 4 ?X = ?lenb"
    using arg_cong [OF layout, of "take 4"] by simp
  have ftr: "take 4 (drop (?s + (4 + P)) (fileData u2)) = ?lenb"
  proof -
    have "drop (4 + P) (take (P + 8) ?X) = drop (4 + P) (?lenb @ ?pay @ ?lenb)"
      using layout by simp
    then have "take 4 (drop (4 + P) ?X) = ?lenb"
      by (simp add: drop_take lenpay)
    then show ?thesis by (simp add: add.commute)
  qed
  have payseg: "take P (drop (?s + 4) (fileData u2)) = ?pay"
  proof -
    have "take P (drop 4 (take (P + 8) ?X)) = take P (drop 4 (?lenb @ ?pay @ ?lenb))"
      using layout by simp
    then have "take P (drop 4 ?X) = ?pay"
      by (simp add: drop_take lenpay)
    then show ?thesis by (simp add: add.commute)
  qed
  have rs: "nat (frameOffsetInFile r) + nat (recordOffsetInFrame r) = ?s"
    using rfo rrec rstart by (simp add: nat_add_distrib [symmetric])
  have rs2: "nat (frameOffsetInFile r) + nat (recordOffsetInFrame r + (4 + sint ?w))
               = ?s + (4 + P)"
    using rfo rrec rstart wfo wrec unfolding sw by linarith
  have rlen: "frameOffsetInFile r + (recordOffsetInFrame r + (4 + sint ?w) + 4)
                \<le> int (length (fileData r))"
    using lenF rstart wfo wrec unfolding sw rfile by linarith
  have w0: "0 \<le> sint ?w" unfolding sw by simp
  have rhdr: "take 4 (drop (nat (frameOffsetInFile r) + nat (recordOffsetInFrame r)) (fileData r))
      = stored (swapEndianness r) (word_bytes (isHostLittleEndian r) ?w, 4)"
    unfolding rs rfile rswap rhost by (rule hdr)
  have rftr: "take 4 (drop (nat (frameOffsetInFile r) + nat (recordOffsetInFrame r + (4 + sint ?w)))
                 (fileData r))
      = stored (swapEndianness r) (word_bytes (isHostLittleEndian r) ?w, 4)"
    unfolding rs2 rfile rswap rhost by (rule ftr)
  define g where "g = fst (ReadFrame (frameOffsetInFile r)
                             (recordOffsetInFrame r + (4 + sint ?w) + 4) r)"
  define r1 where "r1 = r\<lparr>beganReadingRecord := True, frameAt := frameOffsetInFile r,
             frameLength := g, recordLength := Some (4 + sint ?w), positionInRecord := 4\<rparr>"
  have brr: "BeginReadingRecord r rh = Some (True, r1, rh)"
    using BeginReadingRecord_ok [OF rdir rbegan racc runf reof rfo rrec rrec63 w0 rhdr rftr rlen,
        of rh] rh
    unfolding r1_def g_def by simp
  have genough: "recordOffsetInFrame r + (4 + sint ?w) + 4 \<le> g"
    unfolding g_def using rfo rlen by (intro ReadFrame_enough) simp_all
  have gwin: "nat (frameOffsetInFile r) + nat g \<le> length (fileData r)"
    using ReadFrame_window [OF rfo, of "recordOffsetInFrame r + (4 + sint ?w) + 4" r]
      genough rrec w0 unfolding g_def by linarith
  have rl1: "recordLength r1 = Some (4 + int P)" unfolding r1_def sw by simp
  have p1: "positionInRecord r1 = 4" unfolding r1_def by simp
  have rhf1: "ReadHeaderOrFooter r1 (recordOffsetInFrame r) = Some ?w"
  proof (rule ReadHeaderOrFooter_window)
    show "0 \<le> frameAt r1" using rfo by (simp add: r1_def)
    show "0 \<le> recordOffsetInFrame r" using rrec by (simp add: r1_def)
    show "recordOffsetInFrame r + 4 \<le> frameLength r1"
      using genough w0 by (simp add: r1_def)
    show "nat (frameAt r1) + nat (frameLength r1) \<le> length (fileData r1)"
      using gwin by (simp add: r1_def)
    show "take 4 (drop (nat (frameAt r1) + nat (recordOffsetInFrame r)) (fileData r1)) =
        stored (swapEndianness r1) (word_bytes (isHostLittleEndian r1) ?w, 4)"
      using rhdr by (simp add: r1_def)
  qed
  have rhf2: "ReadHeaderOrFooter r1 (recordOffsetInFrame r + (4 + int P)) = Some ?w"
  proof (rule ReadHeaderOrFooter_window)
    show "0 \<le> frameAt r1" using rfo by (simp add: r1_def)
    show "0 \<le> recordOffsetInFrame r + (4 + int P)" using rrec by (simp add: r1_def)
    show "recordOffsetInFrame r + (4 + int P) + 4 \<le> frameLength r1"
      using genough unfolding sw by (simp add: r1_def)
    show "nat (frameAt r1) + nat (frameLength r1) \<le> length (fileData r1)"
      using gwin by (simp add: r1_def)
    show "take 4 (drop (nat (frameAt r1) + nat (recordOffsetInFrame r + (4 + int P)))
             (fileData r1)) =
        stored (swapEndianness r1) (word_bytes (isHostLittleEndian r1) ?w, 4)"
      using rftr unfolding sw by (simp add: r1_def)
  qed
  have "\<exists>r'. Receive_all (map (\<lambda>c. (length (fst c), snd c)) chunks) r1 rh
               = Some (True, map fst chunks, r', rh)
           \<and> positionInRecord r' = positionInRecord r1 + int (length (concat (map fst chunks)))
           \<and> recordLength r' = Some (4 + int P)"
  proof (rule Receive_all_ok)
    show "direction r1 = Input" using rdir by (simp add: r1_def)
    show "recordLength r1 = Some (4 + int P)" by (rule rl1)
    show "0 \<le> frameOffsetInFile r1" using rfo by (simp add: r1_def)
    show "0 \<le> recordOffsetInFrame r1" using rrec by (simp add: r1_def)
    show "0 \<le> positionInRecord r1" by (simp add: r1_def)
    show "furthestPositionInRecord r1 \<le> positionInRecord r1" using rfur by (simp add: r1_def)
    show "positionInRecord r1 + int (length (concat (map fst chunks))) \<le> 4 + int P"
      unfolding P [symmetric] by (simp add: r1_def)
    show "frameOffsetInFile r1 + (recordOffsetInFrame r1 +
           (positionInRecord r1 + int (length (concat (map fst chunks)))))
                \<le> int (length (fileData r1))"
      unfolding P [symmetric] using rlen unfolding sw by (simp add: r1_def)
    have "nat (frameOffsetInFile r1) + nat (recordOffsetInFrame r1) + nat (positionInRecord r1)
            = ?s + 4" using rs by (simp add: r1_def)
    then show "take (length (concat (map fst chunks)))
           (drop (nat (frameOffsetInFile r1) + nat (recordOffsetInFrame r1)
                   + nat (positionInRecord r1)) (fileData r1))
         = concat (map (stored (swapEndianness r1)) chunks)"
      unfolding P [symmetric] using payseg rswap rfile by (simp add: r1_def)
  qed
  then obtain r2 where rcv: "Receive_all (map (\<lambda>c. (length (fst c), snd c)) chunks) r1 rh
               = Some (True, map fst chunks, r2, rh)" by blast
  have hh: "h2 = h" using h1 h2 by simp
  show ?thesis
    apply (intro conjI)
       apply (rule hh)
      apply (rule layout)
     apply (rule sw)
    apply (rule exI [of _ r1], rule exI [of _ r2])
    apply (intro conjI brr rl1 p1 rhf1 rhf2 rcv)
    done
qed

theorem unformatted_sequential_round_trip_witness:
  "\<exists>u2 r1 r2.
      write_record helloChunks unformattedWriter noErrors = Some (True, u2, noErrors)
    \<and> fileData u2 = [5, 0, 0, 0, 72, 101, 108, 108, 111, 5, 0, 0, 0]
    \<and> BeginReadingRecord (unformattedReader (fileData u2)) noErrors = Some (True, r1, noErrors)
    \<and> recordLength r1 = Some 9 \<and> positionInRecord r1 = 4
    \<and> ReadHeaderOrFooter r1 0 = Some 5 \<and> ReadHeaderOrFooter r1 9 = Some 5
    \<and> Receive_all [(5, 1)] r1 noErrors = Some (True, [ [72, 101, 108, 108, 111] ], r2, noErrors)"
proof -
  have "\<exists>u2. write_record helloChunks unformattedWriter noErrors = Some (True, u2, noErrors)
      \<and> fileData u2 = [5, 0, 0, 0, 72, 101, 108, 108, 111, 5, 0, 0, 0]"
    by (simp add: write_record_def helloChunks_def unformattedWriter_def initialUnit_def
        noErrors_def Emit_def AdvanceRecord_def AdvanceRecord_commit_def CommitWrites_def
        BeginRecord_def IsRecordFile_def IsAtEOF_def IsAfterEndfile_def CheckDirectAccess_def
        WriteFrame_def FrameStore_def FrameContents_def extend_def overwrite_def value_or_def
        word_bytes_def int64_of_int_def Let_def)
  then obtain u2 where
    wr: "write_record helloChunks unformattedWriter noErrors = Some (True, u2, noErrors)"
    and fd: "fileData u2 = [5, 0, 0, 0, 72, 101, 108, 108, 111, 5, 0, 0, 0]"
    by blast
  let ?r = "unformattedReader (fileData u2)"
  have P: "(5::nat) = length (concat (map fst helloChunks))" by (simp add: helloChunks_def)
  have small: "(5::nat) < 2 ^ 31" by simp
  have w: "direction unformattedWriter = Output" "access unformattedWriter = Sequential"
    "isUnformatted unformattedWriter = Some True"
    "0 \<le> frameOffsetInFile unformattedWriter" "0 \<le> recordOffsetInFrame unformattedWriter"
    "positionInRecord unformattedWriter = 4" "furthestPositionInRecord unformattedWriter = 4"
    by (simp_all add: unformattedWriter_def initialUnit_def)
  have r: "direction ?r = Input" "access ?r = Sequential" "isUnformatted ?r = Some True"
    "\<not> beganReadingRecord ?r" "\<not> IsAtEOF ?r" "furthestPositionInRecord ?r \<le> 4"
    "swapEndianness ?r = swapEndianness unformattedWriter"
    "isHostLittleEndian ?r = isHostLittleEndian unformattedWriter"
    "fileData ?r = fileData u2"
    "0 \<le> frameOffsetInFile ?r" "0 \<le> recordOffsetInFrame ?r"
    "recordOffsetInFrame ?r < 2 ^ 63"
    "frameOffsetInFile ?r + recordOffsetInFrame ?r
       = frameOffsetInFile unformattedWriter + recordOffsetInFrame unformattedWriter"
    by (simp_all add: unformattedReader_def unformattedWriter_def initialUnit_def IsAtEOF_def)
  have h: "\<not> InError noErrors" by (simp add: InError_def GetIoStat_def noErrors_def)
  have r0: "recordOffsetInFrame ?r = 0" by (simp add: unformattedReader_def initialUnit_def)
  have c1: "map (\<lambda>c. (length (fst c), snd c)) helloChunks = [(5, 1)]"
    and c2: "map fst helloChunks = [ [72, 101, 108, 108, 111] ]"
    by (simp_all add: helloChunks_def)
  from unformatted_sequential_round_trip [OF wr P small w r h, unfolded r0 c1 c2]
  obtain r1 r2 where
    "BeginReadingRecord ?r noErrors = Some (True, r1, noErrors)"
    "recordLength r1 = Some 9" "positionInRecord r1 = 4"
    "ReadHeaderOrFooter r1 0 = Some 5" "ReadHeaderOrFooter r1 9 = Some 5"
    "Receive_all [(5, 1)] r1 noErrors = Some (True, [ [72, 101, 108, 108, 111] ], r2, noErrors)"
    by (auto simp del: Receive_all.simps)
  with wr fd show ?thesis by blast
qed

text \<open>
  The bound on \<open>P\<close> is needed.  The length word has 32 bits and the header is read as a signed
  32-bit integer: a record of \<open>2\<^sup>3\<^sup>1\<close> bytes is written with both calls returning true, and
  \<open>BeginReadingRecord\<close> on it returns false with \<open>recordLength = 4 - 2\<^sup>3\<^sup>1\<close>.
\<close>

theorem unformatted_sequential_large_record_counterexample:
  "write_record largeChunks unformattedWriter noErrors = Some (True, largeWritten, noErrors)
   \<and> map_option fst (BeginReadingRecord (unformattedReader (fileData largeWritten)) noErrors)
       = Some False
   \<and> map_option (recordLength \<circ> fst \<circ> snd)
         (BeginReadingRecord (unformattedReader (fileData largeWritten)) noErrors)
       = Some (Some (4 - 2 ^ 31))"
proof -
  let ?w = "2147483648 :: 32 word"
  have wb: "word_bytes True ?w = [0, 0, 0, 128]"
    by (simp add: word_bytes_def)
  have ln: "length (replicate (2 ^ 31) (0 :: byte)) = 2 ^ 31" by simp
  have wr: "write_record largeChunks unformattedWriter noErrors
              = Some (True, largeWritten, noErrors)"
    unfolding largeChunks_def write_one_chunk ln
    by (simp add: wb largeWritten_def largeRecordFile_def)
  let ?r = "unformattedReader (fileData largeWritten)"
  have fd: "fileData largeWritten = largeRecordFile" by (simp add: largeWritten_def)
  have r: "direction ?r = Input" "\<not> beganReadingRecord ?r" "access ?r = Sequential"
    "isUnformatted ?r = Some True" "\<not> IsAtEOF ?r"
    "0 \<le> frameOffsetInFile ?r" "0 \<le> recordOffsetInFrame ?r"
    by (simp_all add: unformattedReader_def initialUnit_def IsAtEOF_def)
  have hdr: "take 4 (drop (nat (frameOffsetInFile ?r) + nat (recordOffsetInFrame ?r))
               (fileData ?r))
              = stored (swapEndianness ?r) (word_bytes (isHostLittleEndian ?r) ?w, 4)"
    by (simp add: unformattedReader_def initialUnit_def fd largeRecordFile_def stored_def wb)
  have lenf: "int (length (fileData ?r)) = 2 ^ 31 + 8"
    by (simp add: unformattedReader_def initialUnit_def fd largeRecordFile_def)
  have len: "frameOffsetInFile ?r + (recordOffsetInFrame ?r + 4) \<le> int (length (fileData ?r))"
    unfolding lenf by (simp add: unformattedReader_def initialUnit_def)
  have short: "int (length (fileData ?r)) - frameOffsetInFile ?r
                  < size_t_of_int (recordOffsetInFrame ?r + (4 + sint ?w) + 4)"
    unfolding lenf sint_large
    by (simp add: unformattedReader_def initialUnit_def size_t_of_int_def)
  from BeginReadingRecord_hit_eof [OF r hdr len short, of noErrors]
  obtain r' msg where
    "BeginReadingRecord ?r noErrors =
       Some (\<not> InError (SignalErrorMessage msg noErrors), r', SignalErrorMessage msg noErrors)"
    and "recordLength r' = Some (4 + sint ?w)" by blast
  then have "map_option fst (BeginReadingRecord ?r noErrors) = Some False"
    and "map_option (recordLength \<circ> fst \<circ> snd) (BeginReadingRecord ?r noErrors)
           = Some (Some (4 - 2 ^ 31))"
    unfolding sint_large by (simp_all add: InError_SignalErrorMessage)
  with wr show ?thesis by blast
qed

subsection \<open>Advancing and backspacing\<close>



lemma FrameContents_record_fields [simp]:
  "FrameContents (u\<lparr>recordOffsetInFrame := a, recordLength := b\<rparr>) = FrameContents u"
  "FrameContents (u\<lparr>frameOffsetInFile := c\<rparr>) = FrameContents u"
  by (simp_all add: FrameContents_def)

lemma ReadFrame_frameOffsetInFile [simp]:
  "frameOffsetInFile (snd (ReadFrame at need u)) = frameOffsetInFile u"
  "currentRecordNumber (snd (ReadFrame at need u)) = currentRecordNumber u"
  "fileData (snd (ReadFrame at need u)) = fileData u"
  by (simp_all add: ReadFrame_snd)







lemma BeginRecord_currentRecordNumber [simp]:
  "currentRecordNumber (BeginRecord u) = currentRecordNumber u"
  by (simp add: BeginRecord_def)











end
